theory Spec2Isabelle
  imports Main
begin

section \<open>Data model of the user data sync orchestrator\<close>

text \<open>
  The development embeds class \<open>UserDataSyncService\<close> of
  \<open>src/vs/platform/userDataSync/.../userDataAutoSyncService.ts\<close>. The service
  coordinates a fixed array of synchronisers (settings, keybindings, global state,
  extensions), which are external collaborators: the model keeps, for each of them, an
  internal state of an arbitrary type \<open>'st\<close> and the behaviour of its methods as
  functions of that state.
\<close>

datatype SyncStatus = Uninitialized | Idle | Syncing | HasConflicts

text \<open>
  Modelled from the spec: the enumerations \<open>SyncSource\<close> and
  \<open>UserDataSyncErrorCode\<close> and the type \<open>ResourceKey\<close> are declared in
  \<open>vs/platform/userDataSync/common/userDataSync\<close>, which is not under src/. The
  spec names four sources and the codes TooLarge, TurnedOff and SessionExpired, "plus
  synchroniser-specific codes passed through unchanged".
\<close>

datatype SyncSource = Settings | Keybindings | GlobalState | Extensions

type_synonym ResourceKey = string

datatype UserDataSyncErrorCode = TooLarge | TurnedOff | SessionExpired | Unknown | OtherCode string

text \<open>
  The values a \<open>catch\<close> clause of the service can receive. In the source
  \<open>UserDataSyncStoreError\<close> is the class tested by \<open>instanceof\<close> in
  \<open>handleSyncError\<close>; \<open>UserDataSyncError\<close> is the class the service throws
  itself, \<open>Error\<close> is the plain JavaScript error of \<open>checkEnablement\<close>, and
  \<open>TypeError\<close> is what a method call on \<open>undefined\<close> raises.
\<close>

datatype error =
    Error string
  | UserDataSyncError string UserDataSyncErrorCode
  | UserDataSyncStoreError string UserDataSyncErrorCode
  | TypeError string

fun isUserDataSyncStoreError :: "error \<Rightarrow> bool" where
  "isUserDataSyncStoreError (UserDataSyncStoreError m c) = True"
| "isUserDataSyncStoreError e = False"

text \<open>
  Modelled from the spec: \<open>UserDataSyncError.toUserDataSyncError\<close> is declared in
  \<open>vs/platform/userDataSync/common/userDataSync\<close>, which is not under src/. The
  spec has the round "record the error against that source"; the model keeps an error of
  the two sync classes as it is and wraps any other error with the code Unknown.
\<close>

fun toUserDataSyncError :: "error \<Rightarrow> error" where
  "toUserDataSyncError (Error m) = UserDataSyncError m Unknown"
| "toUserDataSyncError (TypeError m) = UserDataSyncError m Unknown"
| "toUserDataSyncError e = e"

text \<open>The remote manifest: \<open>{ session: string, latest?: Record<ResourceKey, string> }\<close>.\<close>

record IUserDataManifest =
  session :: string
  latest :: "(ResourceKey \<rightharpoonup> string) option"

text \<open>Values of the storage service: \<open>store\<close> takes a string or a number.\<close>

datatype storageValue = StringValue string | NumberValue int

definition SESSION_ID_KEY :: string where
  "SESSION_ID_KEY = ''sync.sessionId''"

definition LAST_SYNC_TIME_KEY :: string where
  "LAST_SYNC_TIME_KEY = ''sync.lastSyncTime''"

text \<open>
  The methods of a synchroniser that the service awaits for their effect, and the
  observable effects of the service: calls to synchronisers, events fired by its
  emitters, log lines, telemetry and the clearing of the remote store.
\<close>

datatype call = Pull | Push | Sync "string option" | Stop | Accept string | ResetLocal

datatype event =
    Called SyncSource call
  | DidChangeStatus SyncStatus
  | DidChangeConflicts "SyncSource list"
  | SyncErrors "(SyncSource \<times> error) list"
  | DidChangeLastSyncTime int
  | LogTrace string
  | LogInfo string
  | LogError error
  | LogSourceError SyncSource error
  | Telemetry string SyncSource
  | StoreCleared

text \<open>
  What an awaited call to a synchroniser does, as far as the service can see: the
  internal states at which the synchroniser fires \<open>onDidChangeStatus\<close> while the call
  runs, the internal state when the call settles, and the exception it rejects with, if
  any. The status of a synchroniser is read from its internal state. The two queries
  \<open>hasPreviouslySynced\<close> and \<open>hasLocalData\<close> answer from the internal state and
  leave it as it is; the two content getters may throw and leave it as it is, too.
\<close>

record 'st response =
  announced :: "'st list"
  settled :: 'st
  thrown :: "error option"

record 'st synchroniser =
  source :: SyncSource
  resourceKey :: ResourceKey
  internal :: 'st
  s_status :: "'st \<Rightarrow> SyncStatus"
  s_pull :: "'st \<Rightarrow> 'st response"
  s_push :: "'st \<Rightarrow> 'st response"
  s_sync :: "string option \<Rightarrow> 'st \<Rightarrow> 'st response"
  s_stop :: "'st \<Rightarrow> 'st response"
  s_accept :: "string \<Rightarrow> 'st \<Rightarrow> 'st response"
  s_resetLocal :: "'st \<Rightarrow> 'st response"
  s_getRemoteContent :: "bool \<Rightarrow> 'st \<Rightarrow> error + string option"
  s_resolveContent :: "string \<Rightarrow> 'st \<Rightarrow> error + string option"
  s_hasPreviouslySynced :: "'st \<Rightarrow> bool"
  s_hasLocalData :: "'st \<Rightarrow> bool"

text \<open>
  The service: its private fields, the services injected into it (the sync store, the
  storage service, the clock read by \<open>new Date().getTime()\<close>) and the trace of its
  effects. \<open>userDataSyncStore\<close> tells whether the store service has a store
  configured; \<open>manifests n\<close> is the answer of the store to the \<open>n\<close>-th call of
  \<open>manifest()\<close>, and \<open>fetched\<close> counts the calls made so far.
\<close>

record 'st service =
  synchronisers :: "'st synchroniser list"
  status :: SyncStatus
  conflictsSources :: "SyncSource list"
  syncErrors :: "(SyncSource \<times> error) list"
  lastSyncTime :: "int option"
  userDataSyncStore :: bool
  manifests :: "nat \<Rightarrow> error + IUserDataManifest option"
  fetched :: nat
  clearThrows :: "error option"
  storage :: "string \<rightharpoonup> storageValue"
  clock :: int
  trace :: "event list"

section \<open>Status, conflicts and the last sync time\<close>

definition emit :: "event \<Rightarrow> 'st service \<Rightarrow> 'st service" where
  "emit e s = s\<lparr>trace := trace s @ [e]\<rparr>"

definition synchroniserStatus :: "'st synchroniser \<Rightarrow> SyncStatus" where
  "synchroniserStatus x = s_status x (internal x)"

definition checkEnablement :: "'st service \<Rightarrow> error option" where
  "checkEnablement s =
     (if \<not> userDataSyncStore s then Some (Error ''Not enabled'') else None)"

definition updateLastSyncTime :: "'st service \<Rightarrow> 'st service" where
  "updateLastSyncTime s =
     (if status s = Idle
      then emit (DidChangeLastSyncTime (clock s))
             (s\<lparr>lastSyncTime := Some (clock s),
                storage := (storage s)(LAST_SYNC_TIME_KEY \<mapsto> NumberValue (clock s))\<rparr>)
      else s)"

definition setStatus :: "SyncStatus \<Rightarrow> 'st service \<Rightarrow> 'st service" where
  "setStatus st s =
     (let oldStatus = status s in
      if status s \<noteq> st
      then (let s1 = emit (DidChangeStatus st) (s\<lparr>status := st\<rparr>) in
            if oldStatus = HasConflicts then updateLastSyncTime s1 else s1)
      else s)"

definition computeConflictsSources :: "'st service \<Rightarrow> SyncSource list" where
  "computeConflictsSources s =
     map source (filter (\<lambda>x. synchroniserStatus x = HasConflicts) (synchronisers s))"

definition computeStatus :: "'st service \<Rightarrow> SyncStatus" where
  "computeStatus s =
     (if \<not> userDataSyncStore s then Uninitialized
      else if list_ex (\<lambda>x. synchroniserStatus x = HasConflicts) (synchronisers s)
        then HasConflicts
      else if list_ex (\<lambda>x. synchroniserStatus x = Syncing) (synchronisers s)
        then Syncing
      else Idle)"

text \<open>
  \<open>equals\<close> of \<open>vs/base/common/arrays\<close> is not under src/. The spec calls the
  comparison sequence-insensitive; the model takes the comparison of two arrays item by
  item (equal lengths and equal items at every index), which is the stricter of the two:
  under it the service notifies whenever it would under a comparison that ignores the
  order of the items. On the conflict sources the service ever compares the two
  comparisons agree, as the section on the conflict notifications shows.
\<close>

fun equals :: "'a list \<Rightarrow> 'a list \<Rightarrow> bool" where
  "equals [] [] = True"
| "equals (x # xs) (y # ys) = (x = y \<and> equals xs ys)"
| "equals xs ys = False"

definition updateStatus :: "'st service \<Rightarrow> 'st service" where
  "updateStatus s =
     (let conflicts = computeConflictsSources s;
          s1 = (if \<not> equals (conflictsSources s) conflicts
                then emit (DidChangeConflicts conflicts)
                       (s\<lparr>conflictsSources := computeConflictsSources s\<rparr>)
                else s)
      in setStatus (computeStatus s1) s1)"

section \<open>Calls to synchronisers\<close>

text \<open>
  The constructor registers \<open>updateStatus\<close> as a listener of every synchroniser's
  \<open>onDidChangeStatus\<close>, provided the store is configured. An awaited call to
  synchroniser \<open>i\<close> therefore runs the listener at each internal state the
  synchroniser announces, before the call settles.
\<close>

definition onDidChangeStatus :: "'st service \<Rightarrow> 'st service" where
  "onDidChangeStatus s = (if userDataSyncStore s then updateStatus s else s)"

definition setInternal :: "nat \<Rightarrow> 'st \<Rightarrow> 'st service \<Rightarrow> 'st service" where
  "setInternal i st s =
     s\<lparr>synchronisers := (synchronisers s)[i := (synchronisers s ! i)\<lparr>internal := st\<rparr>]\<rparr>"

definition respond :: "call \<Rightarrow> 'st synchroniser \<Rightarrow> 'st response" where
  "respond c x =
     (case c of
        Pull \<Rightarrow> s_pull x (internal x)
      | Push \<Rightarrow> s_push x (internal x)
      | Sync ref \<Rightarrow> s_sync x ref (internal x)
      | Stop \<Rightarrow> s_stop x (internal x)
      | Accept content \<Rightarrow> s_accept x content (internal x)
      | ResetLocal \<Rightarrow> s_resetLocal x (internal x))"

definition awaitCall :: "call \<Rightarrow> nat \<Rightarrow> 'st service \<Rightarrow> error option \<times> 'st service" where
  "awaitCall c i s =
     (let x = synchronisers s ! i;
          r = respond c x;
          s1 = emit (Called (source x) c) s;
          s2 = foldl (\<lambda>t st. onDidChangeStatus (setInternal i st t)) s1 (announced r)
      in (thrown r, setInternal i (settled r) s2))"

text \<open>
  \<open>for (const synchroniser of this.synchronisers) { try { body } catch (e) { handler } }\<close>
  over the indices of the array: an exception of the body goes to the handler, and an
  exception of the handler leaves the loop.
\<close>

fun forEachSynchroniser ::
  "(nat \<Rightarrow> 'st service \<Rightarrow> error option \<times> 'st service) \<Rightarrow>
   (error \<Rightarrow> nat \<Rightarrow> 'st service \<Rightarrow> error option \<times> 'st service) \<Rightarrow>
   nat list \<Rightarrow> 'st service \<Rightarrow> error option \<times> 'st service" where
  "forEachSynchroniser body handler [] s = (None, s)"
| "forEachSynchroniser body handler (i # rest) s =
     (case body i s of
        (None, s1) \<Rightarrow> forEachSynchroniser body handler rest s1
      | (Some e, s1) \<Rightarrow>
          (case handler e i s1 of
             (None, s2) \<Rightarrow> forEachSynchroniser body handler rest s2
           | (Some e', s2) \<Rightarrow> (Some e', s2)))"

definition indices :: "'st service \<Rightarrow> nat list" where
  "indices s = [0..<length (synchronisers s)]"

definition handleSyncError ::
  "error \<Rightarrow> SyncSource \<Rightarrow> 'st service \<Rightarrow> error option \<times> 'st service" where
  "handleSyncError e src s =
     (case e of
        UserDataSyncStoreError m code \<Rightarrow>
          (Some e, if code = TooLarge then emit (Telemetry ''sync/errorTooLarge'' src) s else s)
      | _ \<Rightarrow> (None, emit (LogSourceError src e) (emit (LogError e) s)))"

section \<open>The public operations\<close>

definition pullCatch :: "error \<Rightarrow> nat \<Rightarrow> 'st service \<Rightarrow> error option \<times> 'st service" where
  "pullCatch e i s = handleSyncError e (source (synchronisers s ! i)) s"

definition pull :: "'st service \<Rightarrow> error option \<times> 'st service" where
  "pull s =
     (case checkEnablement s of
        Some e \<Rightarrow> (Some e, s)
      | None \<Rightarrow>
          (case forEachSynchroniser (awaitCall Pull) pullCatch (indices s) s of
             (Some e, s1) \<Rightarrow> (Some e, s1)
           | (None, s1) \<Rightarrow> (None, updateLastSyncTime s1)))"

definition push :: "'st service \<Rightarrow> error option \<times> 'st service" where
  "push s =
     (case checkEnablement s of
        Some e \<Rightarrow> (Some e, s)
      | None \<Rightarrow>
          (case forEachSynchroniser (awaitCall Push) pullCatch (indices s) s of
             (Some e, s1) \<Rightarrow> (Some e, s1)
           | (None, s1) \<Rightarrow> (None, updateLastSyncTime s1)))"

definition fetchManifest ::
  "'st service \<Rightarrow> (error + IUserDataManifest option) \<times> 'st service" where
  "fetchManifest s = (manifests s (fetched s), s\<lparr>fetched := Suc (fetched s)\<rparr>)"

definition hasPreviouslySynced :: "'st service \<Rightarrow> bool" where
  "hasPreviouslySynced s =
     list_ex (\<lambda>x. s_hasPreviouslySynced x (internal x)) (synchronisers s)"

definition hasLocalData :: "'st service \<Rightarrow> bool" where
  "hasLocalData s = list_ex (\<lambda>x. s_hasLocalData x (internal x)) (synchronisers s)"

definition storageGet :: "string \<Rightarrow> 'st service \<Rightarrow> string option" where
  "storageGet k s = (case storage s k of Some (StringValue v) \<Rightarrow> Some v | _ \<Rightarrow> None)"

definition storageGetNumber :: "string \<Rightarrow> 'st service \<Rightarrow> int option" where
  "storageGetNumber k s = (case storage s k of Some (NumberValue n) \<Rightarrow> Some n | _ \<Rightarrow> None)"

text \<open>
  \<open>manifest && manifest.latest ? manifest.latest[synchroniser.resourceKey] : undefined\<close>
\<close>

definition remoteRef :: "IUserDataManifest option \<Rightarrow> 'st synchroniser \<Rightarrow> string option" where
  "remoteRef manifest x =
     (case manifest of
        None \<Rightarrow> None
      | Some m \<Rightarrow> (case latest m of None \<Rightarrow> None | Some refs \<Rightarrow> refs (resourceKey x)))"

definition syncBody ::
  "IUserDataManifest option \<Rightarrow> nat \<Rightarrow> 'st service \<Rightarrow> error option \<times> 'st service" where
  "syncBody manifest i s = awaitCall (Sync (remoteRef manifest (synchronisers s ! i))) i s"

definition syncCatch :: "error \<Rightarrow> nat \<Rightarrow> 'st service \<Rightarrow> error option \<times> 'st service" where
  "syncCatch e i s =
     (case handleSyncError e (source (synchronisers s ! i)) s of
        (Some e', s1) \<Rightarrow> (Some e', s1)
      | (None, s1) \<Rightarrow>
          (None, s1\<lparr>syncErrors :=
                      syncErrors s1 @ [(source (synchronisers s1 ! i), toUserDataSyncError e)]\<rparr>))"

text \<open>
  \<open>sessionId && manifest && sessionId !== manifest.session\<close>: a string is truthy
  when it is not empty, so an empty persisted session id counts as none.
\<close>

definition sessionMismatch :: "string option \<Rightarrow> IUserDataManifest option \<Rightarrow> bool" where
  "sessionMismatch sessionId manifest =
     (case sessionId of
        None \<Rightarrow> False
      | Some sid \<Rightarrow>
          sid \<noteq> [] \<and> (case manifest of None \<Rightarrow> False | Some m \<Rightarrow> sid \<noteq> session m))"

text \<open>
  \<open>if (manifest && manifest.session !== sessionId) store(SESSION_ID_KEY, manifest.session)\<close>
\<close>

definition updateSessionId ::
  "string option \<Rightarrow> IUserDataManifest option \<Rightarrow> 'st service \<Rightarrow> 'st service" where
  "updateSessionId sessionId manifest s =
     (case manifest of
        None \<Rightarrow> s
      | Some m \<Rightarrow>
          if Some (session m) \<noteq> sessionId
          then s\<lparr>storage := (storage s)(SESSION_ID_KEY \<mapsto> StringValue (session m))\<rparr>
          else s)"

text \<open>The body of the \<open>try\<close> block of \<open>sync\<close>.\<close>

definition syncRound :: "'st service \<Rightarrow> error option \<times> 'st service" where
  "syncRound s =
     (let s1 = emit (LogTrace ''Sync started.'') s;
          s2 = (if status s1 \<noteq> HasConflicts then setStatus Syncing s1 else s1);
          (answer, s3) = fetchManifest s2
      in case answer of
           Inl e \<Rightarrow> (Some e, s3)
         | Inr manifest \<Rightarrow>
             if manifest = None \<and> hasPreviouslySynced s3
             then (Some (UserDataSyncError
                     ''Cannot sync because syncing is turned off in the cloud'' TurnedOff), s3)
             else
               (let sessionId = storageGet SESSION_ID_KEY s3 in
                if sessionMismatch sessionId manifest
                then (Some (UserDataSyncError
                        ''Cannot sync because current session is expired'' SessionExpired), s3)
                else
                  (case forEachSynchroniser (syncBody manifest) syncCatch (indices s3) s3 of
                     (Some e, s4) \<Rightarrow> (Some e, s4)
                   | (None, s4) \<Rightarrow>
                       (let (answer2, s5) =
                              (if manifest = None then fetchManifest s4 else (Inr manifest, s4))
                        in case answer2 of
                             Inl e \<Rightarrow> (Some e, s5)
                           | Inr manifest2 \<Rightarrow>
                               (None,
                                updateLastSyncTime
                                  (emit (LogInfo ''Sync done.'')
                                     (updateSessionId sessionId manifest2 s5)))))))"

text \<open>\<open>sync\<close>: the enablement check, the \<open>try\<close> block and the \<open>finally\<close> block.\<close>

definition sync :: "'st service \<Rightarrow> error option \<times> 'st service" where
  "sync s =
     (case checkEnablement s of
        Some e \<Rightarrow> (Some e, s)
      | None \<Rightarrow>
          (let (r, s1) = syncRound (s\<lparr>syncErrors := []\<rparr>);
               s2 = updateStatus s1
           in (r, emit (SyncErrors (syncErrors s2)) s2)))"

definition stopBody :: "nat \<Rightarrow> 'st service \<Rightarrow> error option \<times> 'st service" where
  "stopBody i s =
     (if synchroniserStatus (synchronisers s ! i) \<noteq> Idle then awaitCall Stop i s else (None, s))"

definition stopCatch :: "error \<Rightarrow> nat \<Rightarrow> 'st service \<Rightarrow> error option \<times> 'st service" where
  "stopCatch e i s = (None, emit (LogError e) s)"

definition stop :: "'st service \<Rightarrow> error option \<times> 'st service" where
  "stop s =
     (case checkEnablement s of
        Some e \<Rightarrow> (Some e, s)
      | None \<Rightarrow>
          if status s = Idle then (None, s)
          else forEachSynchroniser stopBody stopCatch (indices s) s)"

text \<open>
  \<open>getSynchroniser\<close> is \<open>this.synchronisers.filter(s => s.source === source)[0]\<close>:
  the first synchroniser of that source, or \<open>undefined\<close>. The model returns its
  index.
\<close>

fun firstIndex :: "('a \<Rightarrow> bool) \<Rightarrow> 'a list \<Rightarrow> nat option" where
  "firstIndex P [] = None"
| "firstIndex P (x # xs) = (if P x then Some 0 else map_option Suc (firstIndex P xs))"

definition getSynchroniser :: "SyncSource \<Rightarrow> 'st service \<Rightarrow> nat option" where
  "getSynchroniser src s = firstIndex (\<lambda>x. source x = src) (synchronisers s)"

definition accept :: "SyncSource \<Rightarrow> string \<Rightarrow> 'st service \<Rightarrow> error option \<times> 'st service" where
  "accept src content s =
     (case checkEnablement s of
        Some e \<Rightarrow> (Some e, s)
      | None \<Rightarrow>
          (case getSynchroniser src s of
             None \<Rightarrow> (Some (TypeError ''Cannot read property accept of undefined''), s)
           | Some i \<Rightarrow> awaitCall (Accept content) i s))"

definition getRemoteContent ::
  "SyncSource \<Rightarrow> bool \<Rightarrow> 'st service \<Rightarrow> (error + string option) \<times> 'st service" where
  "getRemoteContent src preview s =
     (case checkEnablement s of
        Some e \<Rightarrow> (Inl e, s)
      | None \<Rightarrow>
          (case find (\<lambda>x. source x = src) (synchronisers s) of
             Some x \<Rightarrow> (s_getRemoteContent x preview (internal x), s)
           | None \<Rightarrow> (Inr None, s)))"

definition resolveContent ::
  "ResourceKey \<Rightarrow> string \<Rightarrow> 'st service \<Rightarrow> (error + string option) \<times> 'st service" where
  "resolveContent key ref s =
     (case filter (\<lambda>x. resourceKey x = key) (synchronisers s) of
        x # rest \<Rightarrow> (s_resolveContent x ref (internal x), s)
      | [] \<Rightarrow> (Inr None, s))"

definition isFirstTimeSyncWithMerge :: "'st service \<Rightarrow> (error + bool) \<times> 'st service" where
  "isFirstTimeSyncWithMerge s =
     (case checkEnablement s of
        Some e \<Rightarrow> (Inl e, s)
      | None \<Rightarrow>
          (let (answer, s1) = fetchManifest s
           in case answer of
                Inl e \<Rightarrow> (Inl e, s1)
              | Inr None \<Rightarrow> (Inr False, s1)
              | Inr (Some manifest) \<Rightarrow>
                  if hasPreviouslySynced s1 then (Inr False, s1)
                  else (Inr (hasLocalData s1), s1)))"

definition resetRemote :: "'st service \<Rightarrow> error option \<times> 'st service" where
  "resetRemote s =
     (case checkEnablement s of
        Some e \<Rightarrow> (Some e, s)
      | None \<Rightarrow>
          (case clearThrows s of
             None \<Rightarrow> (None, emit StoreCleared s)
           | Some e \<Rightarrow> (None, emit (LogError e) s)))"

definition resetLocalCatch :: "error \<Rightarrow> nat \<Rightarrow> 'st service \<Rightarrow> error option \<times> 'st service" where
  "resetLocalCatch e i s =
     (None, emit (LogError e) (emit (LogSourceError (source (synchronisers s ! i)) e) s))"

text \<open>
  \<open>resetLocal\<close> calls \<open>synchroniser.resetLocal()\<close> inside \<open>try\<close> without
  awaiting it: the promise the call returns is dropped, so an exception it rejects with
  never reaches the \<open>catch\<close> clause and nothing is logged. The body of the loop
  runs the call and returns normally whatever the call throws.
\<close>

definition resetLocalBody :: "nat \<Rightarrow> 'st service \<Rightarrow> error option \<times> 'st service" where
  "resetLocalBody i s = (None, snd (awaitCall ResetLocal i s))"

definition resetLocal :: "'st service \<Rightarrow> error option \<times> 'st service" where
  "resetLocal s =
     (case checkEnablement s of
        Some e \<Rightarrow> (Some e, s)
      | None \<Rightarrow>
          forEachSynchroniser resetLocalBody resetLocalCatch (indices s)
            (s\<lparr>storage := (storage s)(SESSION_ID_KEY := None, LAST_SYNC_TIME_KEY := None)\<rparr>))"

definition reset :: "'st service \<Rightarrow> error option \<times> 'st service" where
  "reset s =
     (case checkEnablement s of
        Some e \<Rightarrow> (Some e, s)
      | None \<Rightarrow>
          (case resetRemote s of
             (Some e, s1) \<Rightarrow> (Some e, s1)
           | (None, s1) \<Rightarrow> resetLocal s1))"

text \<open>
  The constructor: the fields start from their initialisers, \<open>updateStatus\<close> runs
  once, and the last sync time is read from the storage. Its argument carries the
  synchronisers and the injected services; the private fields it holds are overwritten.
\<close>

definition construct :: "'st service \<Rightarrow> 'st service" where
  "construct env =
     (let s = updateStatus
                (env\<lparr>status := Uninitialized, conflictsSources := [], syncErrors := [],
                     lastSyncTime := None\<rparr>)
      in s\<lparr>lastSyncTime := storageGetNumber LAST_SYNC_TIME_KEY s\<rparr>)"

section \<open>Vocabulary of the properties\<close>

text \<open>The calls to synchronisers recorded in a trace, in the order they were made.\<close>

fun callOf :: "event \<Rightarrow> (SyncSource \<times> call) list" where
  "callOf (Called src c) = [(src, c)]"
| "callOf e = []"

definition calls :: "event list \<Rightarrow> (SyncSource \<times> call) list" where
  "calls tr = concat (map callOf tr)"

text \<open>The events a step adds to the trace: those of \<open>t\<close> beyond the trace of \<open>s\<close>.\<close>

definition fired :: "'st service \<Rightarrow> 'st service \<Rightarrow> event list" where
  "fired s t = drop (length (trace s)) (trace t)"

text \<open>
  The exception with which a call to synchroniser \<open>x\<close> ends, \<open>mk x\<close> being the call
  it receives, and whether that exception is a \<open>UserDataSyncStoreError\<close>.
\<close>

definition thrownBy :: "('st synchroniser \<Rightarrow> call) \<Rightarrow> 'st synchroniser \<Rightarrow> error option" where
  "thrownBy mk x = thrown (respond (mk x) x)"

definition throwsStoreError :: "('st synchroniser \<Rightarrow> call) \<Rightarrow> 'st synchroniser \<Rightarrow> bool" where
  "throwsStoreError mk x =
     (case thrownBy mk x of None \<Rightarrow> False | Some e \<Rightarrow> isUserDataSyncStoreError e)"

text \<open>
  The errors a round captures from a list of synchronisers none of which aborts it: one
  entry for each synchroniser whose call throws, against its source.
\<close>

fun capturedErrors ::
  "('st synchroniser \<Rightarrow> call) \<Rightarrow> 'st synchroniser list \<Rightarrow> (SyncSource \<times> error) list" where
  "capturedErrors mk [] = []"
| "capturedErrors mk (x # xs) =
     (case thrownBy mk x of
        None \<Rightarrow> capturedErrors mk xs
      | Some e \<Rightarrow> (source x, toUserDataSyncError e) # capturedErrors mk xs)"

text \<open>The spec's table of the aggregate status, over the statuses of the synchronisers.\<close>

definition aggregateStatus :: "bool \<Rightarrow> SyncStatus list \<Rightarrow> SyncStatus" where
  "aggregateStatus configured statuses =
     (if \<not> configured then Uninitialized
      else if HasConflicts \<in> set statuses then HasConflicts
      else if Syncing \<in> set statuses then Syncing
      else Idle)"

text \<open>
  The state invariant behind the conflict notifications: the synchronisers have
  pairwise different sources, and the conflict sources the service holds are listed in
  the order of the synchronisers.
\<close>

definition conflictsInOrder :: "'st service \<Rightarrow> bool" where
  "conflictsInOrder s \<longleftrightarrow>
     distinct (map source (synchronisers s)) \<and>
     conflictsSources s =
       filter (\<lambda>a. a \<in> set (conflictsSources s)) (map source (synchronisers s))"

fun logOf :: "event \<Rightarrow> error list" where
  "logOf (LogError e) = [e]"
| "logOf e = []"

definition logged :: "event list \<Rightarrow> error list" where
  "logged tr = concat (map logOf tr)"

fun thrownErrors :: "('st synchroniser \<Rightarrow> call) \<Rightarrow> 'st synchroniser list \<Rightarrow> error list" where
  "thrownErrors mk [] = []"
| "thrownErrors mk (x # xs) =
     (case thrownBy mk x of
        None \<Rightarrow> thrownErrors mk xs
      | Some e \<Rightarrow> e # thrownErrors mk xs)"

text \<open>The call that \<open>sync\<close> makes to synchroniser \<open>x\<close>, given the manifest.\<close>

definition syncCall :: "IUserDataManifest option \<Rightarrow> 'st synchroniser \<Rightarrow> call" where
  "syncCall manifest x = Sync (remoteRef manifest x)"

text \<open>
  The service at the moment the loop of a round starts: the start of the round is
  logged, the status is Syncing unless conflicts are pending, and the manifest has been
  fetched once.
\<close>

definition syncStarted :: "'st service \<Rightarrow> 'st service" where
  "syncStarted s =
     (let s1 = emit (LogTrace ''Sync started.'') s;
          s2 = (if status s1 \<noteq> HasConflicts then setStatus Syncing s1 else s1)
      in s2\<lparr>fetched := Suc (fetched s2)\<rparr>)"

text \<open>
  The steps of a round after the loop: the manifest is fetched again if it was absent,
  the session id is persisted, the end of the round is logged and the last sync time is
  updated.
\<close>

definition syncCompleted ::
  "string option \<Rightarrow> IUserDataManifest option \<Rightarrow> 'st service \<Rightarrow> error option \<times> 'st service" where
  "syncCompleted sessionId manifest s =
     (let (answer2, s5) = (if manifest = None then fetchManifest s else (Inr manifest, s))
      in case answer2 of
           Inl e \<Rightarrow> (Some e, s5)
         | Inr manifest2 \<Rightarrow>
             (None,
              updateLastSyncTime
                (emit (LogInfo ''Sync done.'') (updateSessionId sessionId manifest2 s5))))"

text \<open>
  The status and the last sync time as the events of a trace determine them, and the
  property that every notification of the last sync time in a trace comes while the
  status is Idle. \<open>evolves s t\<close> says that \<open>t\<close> is reached from \<open>s\<close> by firing
  events only, that its status and last sync time are those the events determine, and
  that the property holds for the events fired.
\<close>

fun statusAfter :: "SyncStatus \<Rightarrow> event list \<Rightarrow> SyncStatus" where
  "statusAfter st [] = st"
| "statusAfter st (DidChangeStatus st' # tr) = statusAfter st' tr"
| "statusAfter st (e # tr) = statusAfter st tr"

fun lastSyncTimeAfter :: "int option \<Rightarrow> event list \<Rightarrow> int option" where
  "lastSyncTimeAfter l [] = l"
| "lastSyncTimeAfter l (DidChangeLastSyncTime n # tr) = lastSyncTimeAfter (Some n) tr"
| "lastSyncTimeAfter l (e # tr) = lastSyncTimeAfter l tr"

fun updatedWhileIdle :: "SyncStatus \<Rightarrow> event list \<Rightarrow> bool" where
  "updatedWhileIdle st [] = True"
| "updatedWhileIdle st (DidChangeStatus st' # tr) = updatedWhileIdle st' tr"
| "updatedWhileIdle st (DidChangeLastSyncTime n # tr) = (st = Idle \<and> updatedWhileIdle st tr)"
| "updatedWhileIdle st (e # tr) = updatedWhileIdle st tr"

definition evolves :: "'st service \<Rightarrow> 'st service \<Rightarrow> bool" where
  "evolves s t \<longleftrightarrow>
     take (length (trace s)) (trace t) = trace s
     \<and> status t = statusAfter (status s) (fired s t)
     \<and> lastSyncTime t = lastSyncTimeAfter (lastSyncTime s) (fired s t)
     \<and> updatedWhileIdle (status s) (fired s t)"

text \<open>
  What can happen to a constructed service: a caller invokes one of the public
  operations, or a synchroniser changes its status on its own and the listener
  registered by the constructor runs. \<open>perform\<close> gives the service after one such
  step, \<open>performAll\<close> after a sequence of them.
\<close>

datatype 'st operation =
    OpPull
  | OpPush
  | OpSync
  | OpStop
  | OpAccept SyncSource string
  | OpGetRemoteContent SyncSource bool
  | OpResolveContent ResourceKey string
  | OpIsFirstTimeSyncWithMerge
  | OpResetLocal
  | OpReset
  | StatusChanged nat 'st

fun perform :: "'st operation \<Rightarrow> 'st service \<Rightarrow> 'st service" where
  "perform OpPull s = snd (pull s)"
| "perform OpPush s = snd (push s)"
| "perform OpSync s = snd (sync s)"
| "perform OpStop s = snd (stop s)"
| "perform (OpAccept src content) s = snd (accept src content s)"
| "perform (OpGetRemoteContent src preview) s = snd (getRemoteContent src preview s)"
| "perform (OpResolveContent key ref) s = snd (resolveContent key ref s)"
| "perform OpIsFirstTimeSyncWithMerge s = snd (isFirstTimeSyncWithMerge s)"
| "perform OpResetLocal s = snd (resetLocal s)"
| "perform OpReset s = snd (reset s)"
| "perform (StatusChanged i st) s = onDidChangeStatus (setInternal i st s)"

fun performAll :: "'st operation list \<Rightarrow> 'st service \<Rightarrow> 'st service" where
  "performAll [] s = s"
| "performAll (op # ops) s = performAll ops (perform op s)"

section \<open>Example synchronisers and services\<close>

text \<open>
  Synchronisers whose internal state is their status. A call of the well-behaved one
  announces \<open>Syncing\<close>, then \<open>Idle\<close>, and settles; a call of the rejecting one
  throws the given error and leaves the state as it is.
\<close>

definition settling :: "SyncStatus \<Rightarrow> SyncStatus response" where
  "settling st = \<lparr>announced = [Syncing, Idle], settled = Idle, thrown = None\<rparr>"

definition rejecting :: "error \<Rightarrow> SyncStatus \<Rightarrow> SyncStatus response" where
  "rejecting e st = \<lparr>announced = [], settled = st, thrown = Some e\<rparr>"

definition worker ::
  "SyncSource \<Rightarrow> ResourceKey \<Rightarrow> SyncStatus \<Rightarrow> SyncStatus synchroniser" where
  "worker src key st =
     \<lparr>source = src, resourceKey = key, internal = st, s_status = (\<lambda>st. st),
      s_pull = settling, s_push = settling, s_sync = (\<lambda>ref. settling),
      s_stop = settling, s_accept = (\<lambda>content. settling), s_resetLocal = settling,
      s_getRemoteContent = (\<lambda>preview st. Inr None),
      s_resolveContent = (\<lambda>ref st. Inr (Some ref)),
      s_hasPreviouslySynced = (\<lambda>st. False), s_hasLocalData = (\<lambda>st. True)\<rparr>"

definition failing ::
  "error \<Rightarrow> SyncSource \<Rightarrow> ResourceKey \<Rightarrow> SyncStatus \<Rightarrow> SyncStatus synchroniser" where
  "failing e src key st =
     (worker src key st)\<lparr>s_pull := rejecting e, s_push := rejecting e,
                          s_sync := (\<lambda>ref. rejecting e)\<rparr>"

definition exampleManifest :: "string \<Rightarrow> IUserDataManifest" where
  "exampleManifest sid = \<lparr>session = sid, latest = None\<rparr>"

definition exampleService ::
  "bool \<Rightarrow> SyncStatus \<Rightarrow> SyncStatus synchroniser list \<Rightarrow> IUserDataManifest option \<Rightarrow>
   (string \<rightharpoonup> storageValue) \<Rightarrow> SyncStatus service" where
  "exampleService enabled st xs manifest stored =
     \<lparr>synchronisers = xs, status = st, conflictsSources = [], syncErrors = [],
      lastSyncTime = None, userDataSyncStore = enabled, manifests = (\<lambda>n. Inr manifest),
      fetched = 0, clearThrows = None, storage = stored, clock = 1000, trace = []\<rparr>"

section \<open>Basic facts about the steps\<close>

lemma emit_fields [simp]:
  "synchronisers (emit e s) = synchronisers s"
  "status (emit e s) = status s"
  "conflictsSources (emit e s) = conflictsSources s"
  "syncErrors (emit e s) = syncErrors s"
  "lastSyncTime (emit e s) = lastSyncTime s"
  "userDataSyncStore (emit e s) = userDataSyncStore s"
  "manifests (emit e s) = manifests s"
  "fetched (emit e s) = fetched s"
  "clearThrows (emit e s) = clearThrows s"
  "storage (emit e s) = storage s"
  "clock (emit e s) = clock s"
  "trace (emit e s) = trace s @ [e]"
  by (simp_all add: emit_def)

lemma keys_differ [simp]:
  "SESSION_ID_KEY \<noteq> LAST_SYNC_TIME_KEY" "LAST_SYNC_TIME_KEY \<noteq> SESSION_ID_KEY"
  by (simp_all add: SESSION_ID_KEY_def LAST_SYNC_TIME_KEY_def)

lemma updateLastSyncTime_fields [simp]:
  "synchronisers (updateLastSyncTime s) = synchronisers s"
  "status (updateLastSyncTime s) = status s"
  "conflictsSources (updateLastSyncTime s) = conflictsSources s"
  "syncErrors (updateLastSyncTime s) = syncErrors s"
  "userDataSyncStore (updateLastSyncTime s) = userDataSyncStore s"
  "manifests (updateLastSyncTime s) = manifests s"
  "fetched (updateLastSyncTime s) = fetched s"
  "clearThrows (updateLastSyncTime s) = clearThrows s"
  "clock (updateLastSyncTime s) = clock s"
  "storage (updateLastSyncTime s) SESSION_ID_KEY = storage s SESSION_ID_KEY"
  by (simp_all add: updateLastSyncTime_def)

lemma updateLastSyncTime_trace:
  "trace (updateLastSyncTime s) =
     trace s @ (if status s = Idle then [DidChangeLastSyncTime (clock s)] else [])"
  by (simp add: updateLastSyncTime_def)

lemma setStatus_fields [simp]:
  "synchronisers (setStatus st s) = synchronisers s"
  "status (setStatus st s) = st"
  "conflictsSources (setStatus st s) = conflictsSources s"
  "syncErrors (setStatus st s) = syncErrors s"
  "userDataSyncStore (setStatus st s) = userDataSyncStore s"
  "manifests (setStatus st s) = manifests s"
  "fetched (setStatus st s) = fetched s"
  "clearThrows (setStatus st s) = clearThrows s"
  "clock (setStatus st s) = clock s"
  "storage (setStatus st s) SESSION_ID_KEY = storage s SESSION_ID_KEY"
  by (simp_all add: setStatus_def Let_def)

lemma setStatus_trace:
  "trace (setStatus st s) =
     trace s @ (if status s = st then []
                else DidChangeStatus st #
                  (if status s = HasConflicts \<and> st = Idle
                   then [DidChangeLastSyncTime (clock s)] else []))"
  by (simp add: setStatus_def Let_def updateLastSyncTime_trace)

lemma equals_iff [simp]: "equals xs ys \<longleftrightarrow> xs = ys"
  by (induction xs ys rule: equals.induct) simp_all

lemma list_ex_status:
  "list_ex (\<lambda>x. synchroniserStatus x = st) xs \<longleftrightarrow> st \<in> set (map synchroniserStatus xs)"
  by (induction xs) auto

lemma computeStatus_aggregate:
  "computeStatus s =
     aggregateStatus (userDataSyncStore s) (map synchroniserStatus (synchronisers s))"
  unfolding computeStatus_def aggregateStatus_def list_ex_status by simp

lemma updateStatus_fields [simp]:
  "synchronisers (updateStatus s) = synchronisers s"
  "status (updateStatus s) = computeStatus s"
  "conflictsSources (updateStatus s) = computeConflictsSources s"
  "syncErrors (updateStatus s) = syncErrors s"
  "userDataSyncStore (updateStatus s) = userDataSyncStore s"
  "manifests (updateStatus s) = manifests s"
  "fetched (updateStatus s) = fetched s"
  "clearThrows (updateStatus s) = clearThrows s"
  "clock (updateStatus s) = clock s"
  "storage (updateStatus s) SESSION_ID_KEY = storage s SESSION_ID_KEY"
  by (auto simp add: updateStatus_def Let_def computeStatus_def computeConflictsSources_def)

lemma updateStatus_trace:
  "trace (updateStatus s) =
     trace s
     @ (if conflictsSources s = computeConflictsSources s then []
        else [DidChangeConflicts (computeConflictsSources s)])
     @ (if status s = computeStatus s then []
        else DidChangeStatus (computeStatus s) #
          (if status s = HasConflicts \<and> computeStatus s = Idle
           then [DidChangeLastSyncTime (clock s)] else []))"
  by (auto simp add: updateStatus_def Let_def setStatus_trace computeStatus_def)

section \<open>Awaited calls\<close>

lemma calls_append [simp]: "calls (tr @ tr') = calls tr @ calls tr'"
  by (simp add: calls_def)

lemma logged_append [simp]: "logged (tr @ tr') = logged tr @ logged tr'"
  by (simp add: logged_def)

lemma calls_simps [simp]:
  "calls [] = []"
  "calls (Called src c # tr) = (src, c) # calls tr"
  "calls (DidChangeStatus st # tr) = calls tr"
  "calls (DidChangeConflicts cs # tr) = calls tr"
  "calls (SyncErrors es # tr) = calls tr"
  "calls (DidChangeLastSyncTime n # tr) = calls tr"
  "calls (LogTrace m # tr) = calls tr"
  "calls (LogInfo m # tr) = calls tr"
  "calls (LogError e # tr) = calls tr"
  "calls (LogSourceError src e # tr) = calls tr"
  "calls (Telemetry m src # tr) = calls tr"
  "calls (StoreCleared # tr) = calls tr"
  by (simp_all add: calls_def)

lemma logged_simps [simp]:
  "logged [] = []"
  "logged (Called src c # tr) = logged tr"
  "logged (DidChangeStatus st # tr) = logged tr"
  "logged (DidChangeConflicts cs # tr) = logged tr"
  "logged (SyncErrors es # tr) = logged tr"
  "logged (DidChangeLastSyncTime n # tr) = logged tr"
  "logged (LogTrace m # tr) = logged tr"
  "logged (LogInfo m # tr) = logged tr"
  "logged (LogError e # tr) = e # logged tr"
  "logged (LogSourceError src e # tr) = logged tr"
  "logged (Telemetry m src # tr) = logged tr"
  "logged (StoreCleared # tr) = logged tr"
  by (simp_all add: logged_def)

lemma updateLastSyncTime_quiet [simp]:
  "calls (trace (updateLastSyncTime s)) = calls (trace s)"
  "logged (trace (updateLastSyncTime s)) = logged (trace s)"
  by (simp_all add: updateLastSyncTime_trace)

lemma setStatus_quiet [simp]:
  "calls (trace (setStatus st s)) = calls (trace s)"
  "logged (trace (setStatus st s)) = logged (trace s)"
  by (simp_all add: setStatus_trace)

lemma updateStatus_quiet [simp]:
  "calls (trace (updateStatus s)) = calls (trace s)"
  "logged (trace (updateStatus s)) = logged (trace s)"
  by (simp_all add: updateStatus_trace)

lemma setInternal_fields [simp]:
  "synchronisers (setInternal i st s) =
     (synchronisers s)[i := (synchronisers s ! i)\<lparr>internal := st\<rparr>]"
  "status (setInternal i st s) = status s"
  "conflictsSources (setInternal i st s) = conflictsSources s"
  "syncErrors (setInternal i st s) = syncErrors s"
  "lastSyncTime (setInternal i st s) = lastSyncTime s"
  "userDataSyncStore (setInternal i st s) = userDataSyncStore s"
  "manifests (setInternal i st s) = manifests s"
  "fetched (setInternal i st s) = fetched s"
  "clearThrows (setInternal i st s) = clearThrows s"
  "storage (setInternal i st s) = storage s"
  "clock (setInternal i st s) = clock s"
  "trace (setInternal i st s) = trace s"
  by (simp_all add: setInternal_def)

lemma onDidChangeStatus_fields [simp]:
  "synchronisers (onDidChangeStatus s) = synchronisers s"
  "syncErrors (onDidChangeStatus s) = syncErrors s"
  "userDataSyncStore (onDidChangeStatus s) = userDataSyncStore s"
  "manifests (onDidChangeStatus s) = manifests s"
  "fetched (onDidChangeStatus s) = fetched s"
  "clearThrows (onDidChangeStatus s) = clearThrows s"
  "clock (onDidChangeStatus s) = clock s"
  "storage (onDidChangeStatus s) SESSION_ID_KEY = storage s SESSION_ID_KEY"
  "calls (trace (onDidChangeStatus s)) = calls (trace s)"
  "logged (trace (onDidChangeStatus s)) = logged (trace s)"
  by (simp_all add: onDidChangeStatus_def)

lemma update_internal_twice:
  "xs[i := (xs[i := (xs ! i)\<lparr>internal := a\<rparr>] ! i)\<lparr>internal := b\<rparr>]
     = xs[i := (xs ! i)\<lparr>internal := b\<rparr>]"
  by (cases "i < length xs") (simp_all add: not_less list_update_beyond)

lemma announce_fields:
  "syncErrors (foldl (\<lambda>t st. onDidChangeStatus (setInternal i st t)) s sts) = syncErrors s"
  "userDataSyncStore (foldl (\<lambda>t st. onDidChangeStatus (setInternal i st t)) s sts) =
     userDataSyncStore s"
  "manifests (foldl (\<lambda>t st. onDidChangeStatus (setInternal i st t)) s sts) = manifests s"
  "fetched (foldl (\<lambda>t st. onDidChangeStatus (setInternal i st t)) s sts) = fetched s"
  "clearThrows (foldl (\<lambda>t st. onDidChangeStatus (setInternal i st t)) s sts) = clearThrows s"
  "clock (foldl (\<lambda>t st. onDidChangeStatus (setInternal i st t)) s sts) = clock s"
  "storage (foldl (\<lambda>t st. onDidChangeStatus (setInternal i st t)) s sts) SESSION_ID_KEY =
     storage s SESSION_ID_KEY"
  "calls (trace (foldl (\<lambda>t st. onDidChangeStatus (setInternal i st t)) s sts)) =
     calls (trace s)"
  "logged (trace (foldl (\<lambda>t st. onDidChangeStatus (setInternal i st t)) s sts)) =
     logged (trace s)"
  by (induction sts arbitrary: s; simp)+

lemma announce_synchronisers:
  "(synchronisers (foldl (\<lambda>t st. onDidChangeStatus (setInternal i st t)) s sts))
     [i := (synchronisers (foldl (\<lambda>t st. onDidChangeStatus (setInternal i st t)) s sts) ! i)
             \<lparr>internal := b\<rparr>]
   = (synchronisers s)[i := (synchronisers s ! i)\<lparr>internal := b\<rparr>]"
  by (induction sts arbitrary: s) (simp_all add: update_internal_twice)

lemma awaitCall_result [simp]:
  "fst (awaitCall c i s) = thrown (respond c (synchronisers s ! i))"
  by (simp add: awaitCall_def Let_def)

lemma awaitCall_synchronisers:
  "synchronisers (snd (awaitCall c i s)) =
     (synchronisers s)[i := (synchronisers s ! i)
        \<lparr>internal := settled (respond c (synchronisers s ! i))\<rparr>]"
  using announce_synchronisers [of i "emit (Called (source (synchronisers s ! i)) c) s"]
  by (simp add: awaitCall_def Let_def)

lemma awaitCall_fields [simp]:
  "syncErrors (snd (awaitCall c i s)) = syncErrors s"
  "userDataSyncStore (snd (awaitCall c i s)) = userDataSyncStore s"
  "manifests (snd (awaitCall c i s)) = manifests s"
  "fetched (snd (awaitCall c i s)) = fetched s"
  "clearThrows (snd (awaitCall c i s)) = clearThrows s"
  "clock (snd (awaitCall c i s)) = clock s"
  "storage (snd (awaitCall c i s)) SESSION_ID_KEY = storage s SESSION_ID_KEY"
  "calls (trace (snd (awaitCall c i s))) = calls (trace s) @ [(source (synchronisers s ! i), c)]"
  "logged (trace (snd (awaitCall c i s))) = logged (trace s)"
  by (simp_all add: awaitCall_def Let_def announce_fields)

section \<open>The loop over the synchronisers\<close>

lemma handleSyncError_result [simp]:
  "fst (handleSyncError e src s) = (if isUserDataSyncStoreError e then Some e else None)"
  by (cases e) (simp_all add: handleSyncError_def)

lemma handleSyncError_fields [simp]:
  "synchronisers (snd (handleSyncError e src s)) = synchronisers s"
  "status (snd (handleSyncError e src s)) = status s"
  "conflictsSources (snd (handleSyncError e src s)) = conflictsSources s"
  "syncErrors (snd (handleSyncError e src s)) = syncErrors s"
  "lastSyncTime (snd (handleSyncError e src s)) = lastSyncTime s"
  "userDataSyncStore (snd (handleSyncError e src s)) = userDataSyncStore s"
  "manifests (snd (handleSyncError e src s)) = manifests s"
  "fetched (snd (handleSyncError e src s)) = fetched s"
  "clearThrows (snd (handleSyncError e src s)) = clearThrows s"
  "storage (snd (handleSyncError e src s)) = storage s"
  "clock (snd (handleSyncError e src s)) = clock s"
  "calls (trace (snd (handleSyncError e src s))) = calls (trace s)"
  "logged (trace (snd (handleSyncError e src s))) =
     logged (trace s) @ (if isUserDataSyncStoreError e then [] else [e])"
  by (cases e; simp add: handleSyncError_def)+

lemma pullCatch_result [simp]:
  "fst (pullCatch e i s) = (if isUserDataSyncStoreError e then Some e else None)"
  by (simp add: pullCatch_def)

lemma pullCatch_fields [simp]:
  "synchronisers (snd (pullCatch e i s)) = synchronisers s"
  "status (snd (pullCatch e i s)) = status s"
  "conflictsSources (snd (pullCatch e i s)) = conflictsSources s"
  "syncErrors (snd (pullCatch e i s)) = syncErrors s"
  "lastSyncTime (snd (pullCatch e i s)) = lastSyncTime s"
  "userDataSyncStore (snd (pullCatch e i s)) = userDataSyncStore s"
  "manifests (snd (pullCatch e i s)) = manifests s"
  "fetched (snd (pullCatch e i s)) = fetched s"
  "clearThrows (snd (pullCatch e i s)) = clearThrows s"
  "storage (snd (pullCatch e i s)) = storage s"
  "clock (snd (pullCatch e i s)) = clock s"
  "calls (trace (snd (pullCatch e i s))) = calls (trace s)"
  "logged (trace (snd (pullCatch e i s))) =
     logged (trace s) @ (if isUserDataSyncStoreError e then [] else [e])"
  by (simp_all add: pullCatch_def)

lemma syncCatch_result [simp]:
  "fst (syncCatch e i s) = (if isUserDataSyncStoreError e then Some e else None)"
  by (cases e) (simp_all add: syncCatch_def handleSyncError_def)

lemma syncCatch_fields [simp]:
  "synchronisers (snd (syncCatch e i s)) = synchronisers s"
  "status (snd (syncCatch e i s)) = status s"
  "conflictsSources (snd (syncCatch e i s)) = conflictsSources s"
  "lastSyncTime (snd (syncCatch e i s)) = lastSyncTime s"
  "userDataSyncStore (snd (syncCatch e i s)) = userDataSyncStore s"
  "manifests (snd (syncCatch e i s)) = manifests s"
  "fetched (snd (syncCatch e i s)) = fetched s"
  "clearThrows (snd (syncCatch e i s)) = clearThrows s"
  "storage (snd (syncCatch e i s)) = storage s"
  "clock (snd (syncCatch e i s)) = clock s"
  "calls (trace (snd (syncCatch e i s))) = calls (trace s)"
  "logged (trace (snd (syncCatch e i s))) =
     logged (trace s) @ (if isUserDataSyncStoreError e then [] else [e])"
  "syncErrors (snd (syncCatch e i s)) =
     syncErrors s @ (if isUserDataSyncStoreError e then []
                     else [(source (synchronisers s ! i), toUserDataSyncError e)])"
  by (cases e; simp add: syncCatch_def handleSyncError_def)+

text \<open>
  One round of the loop in which no call ends with a store error: every index receives
  its call, the errors thrown are logged and handed to the handler, and nothing
  propagates. \<open>rec src e\<close> is what the handler appends to the error list.
\<close>

lemma forEachSynchroniser_no_abort:
  fixes rec :: "SyncSource \<Rightarrow> error \<Rightarrow> (SyncSource \<times> error) list"
  assumes body: "\<And>i t. body i t = awaitCall (mk (synchronisers t ! i)) i t"
    and h_res: "\<And>e i t. fst (handler e i t) = (if isUserDataSyncStoreError e then Some e else None)"
    and h_syn: "\<And>e i t. synchronisers (snd (handler e i t)) = synchronisers t"
    and h_calls: "\<And>e i t. calls (trace (snd (handler e i t))) = calls (trace t)"
    and h_log: "\<And>e i t. \<not> isUserDataSyncStoreError e \<Longrightarrow>
                  logged (trace (snd (handler e i t))) = logged (trace t) @ [e]"
    and h_err: "\<And>e i t. \<not> isUserDataSyncStoreError e \<Longrightarrow>
                  syncErrors (snd (handler e i t)) =
                    syncErrors t @ rec (source (synchronisers t ! i)) e"
    and h_frame: "\<And>e i t. userDataSyncStore (snd (handler e i t)) = userDataSyncStore t
                  \<and> manifests (snd (handler e i t)) = manifests t
                  \<and> fetched (snd (handler e i t)) = fetched t
                  \<and> storage (snd (handler e i t)) SESSION_ID_KEY = storage t SESSION_ID_KEY"
    and dist: "distinct js"
    and ok: "\<forall>j\<in>set js. j < length (synchronisers s)
                \<and> \<not> throwsStoreError mk (synchronisers s ! j)"
  shows "fst (forEachSynchroniser body handler js s) = None
    \<and> calls (trace (snd (forEachSynchroniser body handler js s))) =
        calls (trace s)
        @ map (\<lambda>j. (source (synchronisers s ! j), mk (synchronisers s ! j))) js
    \<and> logged (trace (snd (forEachSynchroniser body handler js s))) =
        logged (trace s) @ thrownErrors mk (map ((!) (synchronisers s)) js)
    \<and> syncErrors (snd (forEachSynchroniser body handler js s)) =
        syncErrors s
        @ concat (map (\<lambda>j. case thrownBy mk (synchronisers s ! j) of
                              None \<Rightarrow> []
                            | Some e \<Rightarrow> rec (source (synchronisers s ! j)) e) js)
    \<and> length (synchronisers (snd (forEachSynchroniser body handler js s))) =
        length (synchronisers s)
    \<and> (\<forall>j. j \<notin> set js \<longrightarrow>
          synchronisers (snd (forEachSynchroniser body handler js s)) ! j = synchronisers s ! j)
    \<and> map source (synchronisers (snd (forEachSynchroniser body handler js s))) =
        map source (synchronisers s)
    \<and> userDataSyncStore (snd (forEachSynchroniser body handler js s)) = userDataSyncStore s
    \<and> manifests (snd (forEachSynchroniser body handler js s)) = manifests s
    \<and> fetched (snd (forEachSynchroniser body handler js s)) = fetched s
    \<and> storage (snd (forEachSynchroniser body handler js s)) SESSION_ID_KEY =
        storage s SESSION_ID_KEY"
  using dist ok
proof (induction js arbitrary: s)
  case Nil
  show ?case by simp
next
  case (Cons i rest)
  define x where "x = synchronisers s ! i"
  define r where "r = respond (mk x) x"
  define s1 where "s1 = snd (awaitCall (mk x) i s)"
  have i_lt: "i < length (synchronisers s)" and i_ok: "\<not> throwsStoreError mk x"
    using Cons.prems by (simp_all add: x_def)
  have syn1: "synchronisers s1 = (synchronisers s)[i := x\<lparr>internal := settled r\<rparr>]"
    by (simp add: s1_def awaitCall_synchronisers x_def r_def)
  have b: "body i s = (thrown r, s1)"
    by (simp add: body x_def r_def s1_def prod_eq_iff)
  define s2 where "s2 = (case thrown r of None \<Rightarrow> s1 | Some e \<Rightarrow> snd (handler e i s1))"
  have step: "forEachSynchroniser body handler (i # rest) s =
                forEachSynchroniser body handler rest s2"
  proof (cases "thrown r")
    case None
    then show ?thesis by (simp add: b s2_def)
  next
    case (Some e)
    then have "\<not> isUserDataSyncStoreError e"
      using i_ok by (simp add: throwsStoreError_def thrownBy_def r_def)
    then have "fst (handler e i s1) = None"
      using h_res [of e i s1] by simp
    then show ?thesis using Some by (cases "handler e i s1") (simp add: b s2_def)
  qed
  have syn2: "synchronisers s2 = (synchronisers s)[i := x\<lparr>internal := settled r\<rparr>]"
    by (simp add: s2_def syn1 h_syn split: option.split)
  have nth2: "j \<noteq> i \<Longrightarrow> synchronisers s2 ! j = synchronisers s ! j" for j
    by (simp add: syn2)
  have rest_ne: "\<forall>j\<in>set rest. j \<noteq> i" and rest_dist: "distinct rest"
    using Cons.prems by auto
  have ok2: "\<forall>j\<in>set rest. j < length (synchronisers s2)
                \<and> \<not> throwsStoreError mk (synchronisers s2 ! j)"
    using Cons.prems rest_ne by (auto simp add: syn2)
  note IH = Cons.IH [OF rest_dist ok2]
  have same: "map (\<lambda>j. (source (synchronisers s2 ! j), mk (synchronisers s2 ! j))) rest =
      map (\<lambda>j. (source (synchronisers s ! j), mk (synchronisers s ! j))) rest"
    using rest_ne by (simp add: nth2)
  have calls2: "calls (trace s2) = calls (trace s) @ [(source x, mk x)]"
    by (simp add: s2_def s1_def h_calls x_def split: option.split)
  have logged2: "logged (trace s2) =
      logged (trace s) @ (case thrownBy mk x of None \<Rightarrow> [] | Some e \<Rightarrow> [e])"
    using i_ok
    by (auto simp add: s2_def s1_def h_log thrownBy_def throwsStoreError_def r_def
          split: option.split)
  have src1: "source (synchronisers s1 ! i) = source x"
    using i_lt by (simp add: syn1)
  have errs1: "syncErrors s1 = syncErrors s"
    by (simp add: s1_def)
  have errs2: "syncErrors s2 =
      syncErrors s @ (case thrownBy mk x of None \<Rightarrow> [] | Some e \<Rightarrow> rec (source x) e)"
    using i_ok
    by (auto simp add: s2_def h_err src1 errs1 thrownBy_def throwsStoreError_def r_def
          split: option.split)
  have frame2: "userDataSyncStore s2 = userDataSyncStore s \<and> manifests s2 = manifests s
      \<and> fetched s2 = fetched s \<and> storage s2 SESSION_ID_KEY = storage s SESSION_ID_KEY"
    by (simp add: s2_def s1_def h_frame split: option.split)
  have src2: "map source (synchronisers s2) = map source (synchronisers s)"
    using i_lt by (simp add: syn2 map_update x_def list_update_same_conv)
  have "map ((!) (synchronisers s2)) rest = map ((!) (synchronisers s)) rest"
    using rest_ne by (simp add: nth2)
  then have thrown2: "thrownErrors mk (map ((!) (synchronisers s2)) rest) =
      thrownErrors mk (map ((!) (synchronisers s)) rest)"
    by (rule arg_cong)
  have "map (\<lambda>j. case thrownBy mk (synchronisers s2 ! j) of
                              None \<Rightarrow> []
                            | Some e \<Rightarrow> rec (source (synchronisers s2 ! j)) e) rest =
      map (\<lambda>j. case thrownBy mk (synchronisers s ! j) of
                              None \<Rightarrow> []
                            | Some e \<Rightarrow> rec (source (synchronisers s ! j)) e) rest"
    using rest_ne by (auto simp add: nth2 split: option.split)
  then have concat2: "concat (map (\<lambda>j. case thrownBy mk (synchronisers s2 ! j) of
                              None \<Rightarrow> []
                            | Some e \<Rightarrow> rec (source (synchronisers s2 ! j)) e) rest) =
      concat (map (\<lambda>j. case thrownBy mk (synchronisers s ! j) of
                              None \<Rightarrow> []
                            | Some e \<Rightarrow> rec (source (synchronisers s ! j)) e) rest)"
    by (rule arg_cong)
  have nth_out: "\<forall>j. j \<notin> set (i # rest) \<longrightarrow>
      synchronisers (snd (forEachSynchroniser body handler rest s2)) ! j = synchronisers s ! j"
    using IH nth2 by simp
  have len2: "length (synchronisers s2) = length (synchronisers s)"
    by (simp add: syn2)
  show ?case
    unfolding step
    using IH nth_out
    unfolding same thrown2 concat2 calls2 logged2 errs2 src2 len2
    by (simp add: frame2 x_def split: option.split)
qed

lemma forEachSynchroniser_append:
  "forEachSynchroniser body handler (js @ ks) s =
     (case forEachSynchroniser body handler js s of
        (None, s1) \<Rightarrow> forEachSynchroniser body handler ks s1
      | (Some e, s1) \<Rightarrow> (Some e, s1))"
  by (induction js arbitrary: s) (simp_all split: prod.split option.split)

text \<open>
  One round of the loop in which the call to index \<open>k\<close> is the first to end with a
  store error: the indices up to \<open>k\<close> receive their call, the later ones do not, the
  store error propagates and the handler has recorded the errors thrown before \<open>k\<close>
  only.
\<close>

lemma forEachSynchroniser_abort:
  fixes rec :: "SyncSource \<Rightarrow> error \<Rightarrow> (SyncSource \<times> error) list"
  assumes body: "\<And>i t. body i t = awaitCall (mk (synchronisers t ! i)) i t"
    and h_res: "\<And>e i t. fst (handler e i t) = (if isUserDataSyncStoreError e then Some e else None)"
    and h_syn: "\<And>e i t. synchronisers (snd (handler e i t)) = synchronisers t"
    and h_calls: "\<And>e i t. calls (trace (snd (handler e i t))) = calls (trace t)"
    and h_log: "\<And>e i t. \<not> isUserDataSyncStoreError e \<Longrightarrow>
                  logged (trace (snd (handler e i t))) = logged (trace t) @ [e]"
    and h_err: "\<And>e i t. \<not> isUserDataSyncStoreError e \<Longrightarrow>
                  syncErrors (snd (handler e i t)) =
                    syncErrors t @ rec (source (synchronisers t ! i)) e"
    and h_frame: "\<And>e i t. userDataSyncStore (snd (handler e i t)) = userDataSyncStore t
                  \<and> manifests (snd (handler e i t)) = manifests t
                  \<and> fetched (snd (handler e i t)) = fetched t
                  \<and> storage (snd (handler e i t)) SESSION_ID_KEY = storage t SESSION_ID_KEY"
    and h_err_store: "\<And>e i t. isUserDataSyncStoreError e \<Longrightarrow>
                  syncErrors (snd (handler e i t)) = syncErrors t"
    and dist: "distinct (js @ k # ks)"
    and ok: "\<forall>j\<in>set js. j < length (synchronisers s)
                \<and> \<not> throwsStoreError mk (synchronisers s ! j)"
    and k: "k < length (synchronisers s)"
    and at: "thrownBy mk (synchronisers s ! k) = Some e" "isUserDataSyncStoreError e"
  shows "fst (forEachSynchroniser body handler (js @ k # ks) s) = Some e
    \<and> calls (trace (snd (forEachSynchroniser body handler (js @ k # ks) s))) =
        calls (trace s)
        @ map (\<lambda>j. (source (synchronisers s ! j), mk (synchronisers s ! j))) (js @ [k])
    \<and> syncErrors (snd (forEachSynchroniser body handler (js @ k # ks) s)) =
        syncErrors s
        @ concat (map (\<lambda>j. case thrownBy mk (synchronisers s ! j) of
                              None \<Rightarrow> []
                            | Some e \<Rightarrow> rec (source (synchronisers s ! j)) e) js)
    \<and> map source (synchronisers (snd (forEachSynchroniser body handler (js @ k # ks) s))) =
        map source (synchronisers s)
    \<and> userDataSyncStore (snd (forEachSynchroniser body handler (js @ k # ks) s)) =
        userDataSyncStore s"
proof -
  define t where "t = snd (forEachSynchroniser body handler js s)"
  have djs: "distinct js" and k_out: "k \<notin> set js"
    using dist by auto
  note pre = forEachSynchroniser_no_abort
    [of body mk handler rec js s, OF body h_res h_syn h_calls h_log h_err h_frame djs ok]
  have run: "forEachSynchroniser body handler js s = (None, t)"
    using pre by (simp add: t_def prod_eq_iff)
  have at_k: "synchronisers t ! k = synchronisers s ! k"
    using pre k_out by (simp add: t_def)
  have len: "length (synchronisers t) = length (synchronisers s)"
    using pre by (simp add: t_def)
  define x where "x = synchronisers s ! k"
  define t1 where "t1 = snd (awaitCall (mk x) k t)"
  have b: "body k t = (Some e, t1)"
    using at by (simp add: body at_k x_def t1_def prod_eq_iff thrownBy_def)
  have h: "fst (handler e k t1) = Some e"
    using at h_res [of e k t1] by simp
  have final: "forEachSynchroniser body handler (js @ k # ks) s =
      (Some e, snd (handler e k t1))"
    using h by (cases "handler e k t1") (simp add: forEachSynchroniser_append run b)
  have syn1: "synchronisers t1 =
      (synchronisers t)[k := x\<lparr>internal := settled (respond (mk x) x)\<rparr>]"
    by (simp add: t1_def awaitCall_synchronisers at_k x_def)
  have src_t: "map source (synchronisers t) = map source (synchronisers s)"
    using pre by (simp add: t_def)
  have "source (synchronisers t ! k) = source x"
    by (simp add: at_k x_def)
  then have src1: "map source (synchronisers t1) = map source (synchronisers s)"
    using k len by (simp add: syn1 map_update list_update_same_conv src_t [symmetric])
  have calls1: "calls (trace t1) =
      calls (trace s)
      @ map (\<lambda>j. (source (synchronisers s ! j), mk (synchronisers s ! j))) js
      @ [(source x, mk x)]"
    using pre by (simp add: t1_def t_def at_k [unfolded t_def] x_def)
  have errs1: "syncErrors t1 =
      syncErrors s
      @ concat (map (\<lambda>j. case thrownBy mk (synchronisers s ! j) of
                              None \<Rightarrow> []
                            | Some e \<Rightarrow> rec (source (synchronisers s ! j)) e) js)"
    using pre by (simp add: t1_def t_def)
  have store1: "userDataSyncStore t1 = userDataSyncStore s"
    using pre by (simp add: t1_def t_def)
  show ?thesis
    unfolding final
    using at(2)
    by (simp add: h_syn h_calls h_err_store h_frame src1 calls1 errs1 store1 x_def)
qed

section \<open>The rounds of pull, push and sync\<close>

lemma indices_distinct [simp]: "distinct (indices s)"
  by (simp add: indices_def)

lemma indices_member [simp]: "j \<in> set (indices s) \<longleftrightarrow> j < length (synchronisers s)"
  by (simp add: indices_def)

lemma indices_map [simp]:
  "map (\<lambda>j. f (synchronisers s ! j)) (indices s) = map f (synchronisers s)"
  unfolding indices_def by (rule nth_equalityI) simp_all

lemma indices_nth [simp]: "map ((!) (synchronisers s)) (indices s) = synchronisers s"
  unfolding indices_def by (rule map_nth)

lemma indices_split:
  "k < length (synchronisers s) \<Longrightarrow>
     indices s = [0..<k] @ k # [Suc k..<length (synchronisers s)]"
  unfolding indices_def
  using upt_add_eq_append [of 0 k "length (synchronisers s) - k"] upt_conv_Cons [of k "length (synchronisers s)"]
  by simp

lemma map_nth_take:
  "k \<le> length xs \<Longrightarrow> map (\<lambda>j. f (xs ! j)) [0..<k] = map f (take k xs)"
  by (simp add: list_eq_iff_nth_eq)

lemma concat_captured:
  "concat (map (\<lambda>x. case thrownBy mk x of None \<Rightarrow> []
                    | Some e \<Rightarrow> [(source x, toUserDataSyncError e)]) xs) =
     capturedErrors mk xs"
  by (induction xs) (simp_all split: option.split)

lemma concat_nothing:
  "concat (map (\<lambda>x. case thrownBy mk x of None \<Rightarrow> [] | Some e \<Rightarrow> []) xs) = []"
  by (induction xs) (simp_all split: option.split)

lemma all_nth_iff:
  "(\<forall>j\<in>set (indices s). j < length (synchronisers s) \<and> P (synchronisers s ! j)) \<longleftrightarrow>
     (\<forall>x\<in>set (synchronisers s). P x)"
proof
  assume l: "\<forall>j\<in>set (indices s). j < length (synchronisers s) \<and> P (synchronisers s ! j)"
  show "\<forall>x\<in>set (synchronisers s). P x"
  proof
    fix x assume "x \<in> set (synchronisers s)"
    then obtain j where "j < length (synchronisers s)" "synchronisers s ! j = x"
      by (auto simp add: in_set_conv_nth)
    then show "P x" using l by auto
  qed
next
  assume "\<forall>x\<in>set (synchronisers s). P x"
  then show "\<forall>j\<in>set (indices s). j < length (synchronisers s) \<and> P (synchronisers s ! j)"
    by simp
qed

lemma forEachSynchroniser_all:
  fixes rec :: "SyncSource \<Rightarrow> error \<Rightarrow> (SyncSource \<times> error) list"
  assumes body: "\<And>i t. body i t = awaitCall (mk (synchronisers t ! i)) i t"
    and h_res: "\<And>e i t. fst (handler e i t) = (if isUserDataSyncStoreError e then Some e else None)"
    and h_syn: "\<And>e i t. synchronisers (snd (handler e i t)) = synchronisers t"
    and h_calls: "\<And>e i t. calls (trace (snd (handler e i t))) = calls (trace t)"
    and h_log: "\<And>e i t. \<not> isUserDataSyncStoreError e \<Longrightarrow>
                  logged (trace (snd (handler e i t))) = logged (trace t) @ [e]"
    and h_err: "\<And>e i t. \<not> isUserDataSyncStoreError e \<Longrightarrow>
                  syncErrors (snd (handler e i t)) =
                    syncErrors t @ rec (source (synchronisers t ! i)) e"
    and h_frame: "\<And>e i t. userDataSyncStore (snd (handler e i t)) = userDataSyncStore t
                  \<and> manifests (snd (handler e i t)) = manifests t
                  \<and> fetched (snd (handler e i t)) = fetched t
                  \<and> storage (snd (handler e i t)) SESSION_ID_KEY = storage t SESSION_ID_KEY"
    and ok: "\<forall>x\<in>set (synchronisers s). \<not> throwsStoreError mk x"
  shows "fst (forEachSynchroniser body handler (indices s) s) = None
    \<and> calls (trace (snd (forEachSynchroniser body handler (indices s) s))) =
        calls (trace s) @ map (\<lambda>x. (source x, mk x)) (synchronisers s)
    \<and> logged (trace (snd (forEachSynchroniser body handler (indices s) s))) =
        logged (trace s) @ thrownErrors mk (synchronisers s)
    \<and> syncErrors (snd (forEachSynchroniser body handler (indices s) s)) =
        syncErrors s
        @ concat (map (\<lambda>x. case thrownBy mk x of None \<Rightarrow> []
                           | Some e \<Rightarrow> rec (source x) e) (synchronisers s))
    \<and> map source (synchronisers (snd (forEachSynchroniser body handler (indices s) s))) =
        map source (synchronisers s)
    \<and> userDataSyncStore (snd (forEachSynchroniser body handler (indices s) s)) =
        userDataSyncStore s
    \<and> manifests (snd (forEachSynchroniser body handler (indices s) s)) = manifests s
    \<and> fetched (snd (forEachSynchroniser body handler (indices s) s)) = fetched s
    \<and> storage (snd (forEachSynchroniser body handler (indices s) s)) SESSION_ID_KEY =
        storage s SESSION_ID_KEY"
proof -
  have ok': "\<forall>j\<in>set (indices s). j < length (synchronisers s)
      \<and> \<not> throwsStoreError mk (synchronisers s ! j)"
    using ok by (rule all_nth_iff [THEN iffD2])
  note loop = forEachSynchroniser_no_abort
    [of body mk handler rec "indices s" s,
     OF body h_res h_syn h_calls h_log h_err h_frame indices_distinct ok']
  show ?thesis
    using loop
    unfolding indices_nth
      indices_map [of "\<lambda>x. (source x, mk x)"]
      indices_map [of "\<lambda>x. case thrownBy mk x of None \<Rightarrow> [] | Some e \<Rightarrow> rec (source x) e"]
    by simp
qed

lemma checkEnablement_enabled [simp]:
  "userDataSyncStore s \<Longrightarrow> checkEnablement s = None"
  by (simp add: checkEnablement_def)

lemma pull_round:
  assumes "userDataSyncStore s"
    and "\<forall>x\<in>set (synchronisers s). \<not> throwsStoreError (\<lambda>x. Pull) x"
  shows "fst (pull s) = None
    \<and> calls (trace (snd (pull s))) =
        calls (trace s) @ map (\<lambda>x. (source x, Pull)) (synchronisers s)
    \<and> logged (trace (snd (pull s))) =
        logged (trace s) @ thrownErrors (\<lambda>x. Pull) (synchronisers s)
    \<and> syncErrors (snd (pull s)) = syncErrors s"
proof -
  note loop = forEachSynchroniser_all
    [of "awaitCall Pull" "\<lambda>x. Pull" pullCatch "\<lambda>src e. []" s, OF _ _ _ _ _ _ _ assms(2)]
  have *: "fst (forEachSynchroniser (awaitCall Pull) pullCatch (indices s) s) = None
    \<and> calls (trace (snd (forEachSynchroniser (awaitCall Pull) pullCatch (indices s) s))) =
        calls (trace s) @ map (\<lambda>x. (source x, Pull)) (synchronisers s)
    \<and> logged (trace (snd (forEachSynchroniser (awaitCall Pull) pullCatch (indices s) s))) =
        logged (trace s) @ thrownErrors (\<lambda>x. Pull) (synchronisers s)
    \<and> syncErrors (snd (forEachSynchroniser (awaitCall Pull) pullCatch (indices s) s)) =
        syncErrors s"
    using loop by (simp add: concat_nothing)
  show ?thesis
    using * assms(1)
    by (cases "forEachSynchroniser (awaitCall Pull) pullCatch (indices s) s")
       (simp add: pull_def)
qed

lemma push_round:
  assumes "userDataSyncStore s"
    and "\<forall>x\<in>set (synchronisers s). \<not> throwsStoreError (\<lambda>x. Push) x"
  shows "fst (push s) = None
    \<and> calls (trace (snd (push s))) =
        calls (trace s) @ map (\<lambda>x. (source x, Push)) (synchronisers s)
    \<and> logged (trace (snd (push s))) =
        logged (trace s) @ thrownErrors (\<lambda>x. Push) (synchronisers s)
    \<and> syncErrors (snd (push s)) = syncErrors s"
proof -
  note loop = forEachSynchroniser_all
    [of "awaitCall Push" "\<lambda>x. Push" pullCatch "\<lambda>src e. []" s, OF _ _ _ _ _ _ _ assms(2)]
  have *: "fst (forEachSynchroniser (awaitCall Push) pullCatch (indices s) s) = None
    \<and> calls (trace (snd (forEachSynchroniser (awaitCall Push) pullCatch (indices s) s))) =
        calls (trace s) @ map (\<lambda>x. (source x, Push)) (synchronisers s)
    \<and> logged (trace (snd (forEachSynchroniser (awaitCall Push) pullCatch (indices s) s))) =
        logged (trace s) @ thrownErrors (\<lambda>x. Push) (synchronisers s)
    \<and> syncErrors (snd (forEachSynchroniser (awaitCall Push) pullCatch (indices s) s)) =
        syncErrors s"
    using loop by (simp add: concat_nothing)
  show ?thesis
    using * assms(1)
    by (cases "forEachSynchroniser (awaitCall Push) pullCatch (indices s) s")
       (simp add: push_def)
qed

lemma syncStarted_fields [simp]:
  "synchronisers (syncStarted s) = synchronisers s"
  "conflictsSources (syncStarted s) = conflictsSources s"
  "syncErrors (syncStarted s) = syncErrors s"
  "userDataSyncStore (syncStarted s) = userDataSyncStore s"
  "manifests (syncStarted s) = manifests s"
  "fetched (syncStarted s) = Suc (fetched s)"
  "clearThrows (syncStarted s) = clearThrows s"
  "clock (syncStarted s) = clock s"
  "storage (syncStarted s) SESSION_ID_KEY = storage s SESSION_ID_KEY"
  "calls (trace (syncStarted s)) = calls (trace s)"
  "logged (trace (syncStarted s)) = logged (trace s)"
  by (simp_all add: syncStarted_def Let_def)

lemma syncRound_unfold:
  "syncRound s =
     (case manifests s (fetched s) of
        Inl e \<Rightarrow> (Some e, syncStarted s)
      | Inr manifest \<Rightarrow>
          if manifest = None \<and> hasPreviouslySynced s
          then (Some (UserDataSyncError
                  ''Cannot sync because syncing is turned off in the cloud'' TurnedOff),
                syncStarted s)
          else if sessionMismatch (storageGet SESSION_ID_KEY s) manifest
          then (Some (UserDataSyncError
                  ''Cannot sync because current session is expired'' SessionExpired),
                syncStarted s)
          else (case forEachSynchroniser (syncBody manifest) syncCatch (indices s)
                       (syncStarted s) of
                  (Some e, s4) \<Rightarrow> (Some e, s4)
                | (None, s4) \<Rightarrow> syncCompleted (storageGet SESSION_ID_KEY s) manifest s4))"
  unfolding syncCompleted_def storageGet_def
  by (simp add: syncRound_def syncStarted_def fetchManifest_def Let_def
        hasPreviouslySynced_def storageGet_def indices_def split: sum.split)

lemma updateSessionId_fields [simp]:
  "synchronisers (updateSessionId sid m s) = synchronisers s"
  "status (updateSessionId sid m s) = status s"
  "conflictsSources (updateSessionId sid m s) = conflictsSources s"
  "syncErrors (updateSessionId sid m s) = syncErrors s"
  "lastSyncTime (updateSessionId sid m s) = lastSyncTime s"
  "userDataSyncStore (updateSessionId sid m s) = userDataSyncStore s"
  "manifests (updateSessionId sid m s) = manifests s"
  "fetched (updateSessionId sid m s) = fetched s"
  "clock (updateSessionId sid m s) = clock s"
  "trace (updateSessionId sid m s) = trace s"
  by (simp_all add: updateSessionId_def split: option.split)

lemma syncCompleted_result:
  "fst (syncCompleted sid manifest s) =
     (if manifest = None
      then (case manifests s (fetched s) of Inl e \<Rightarrow> Some e | Inr m \<Rightarrow> None)
      else None)"
  by (simp add: syncCompleted_def fetchManifest_def split: sum.split)

lemma syncCompleted_fields [simp]:
  "synchronisers (snd (syncCompleted sid manifest s)) = synchronisers s"
  "syncErrors (snd (syncCompleted sid manifest s)) = syncErrors s"
  "userDataSyncStore (snd (syncCompleted sid manifest s)) = userDataSyncStore s"
  "calls (trace (snd (syncCompleted sid manifest s))) = calls (trace s)"
  "logged (trace (snd (syncCompleted sid manifest s))) = logged (trace s)"
  by (simp_all add: syncCompleted_def fetchManifest_def split: sum.split)

lemma sync_enabled:
  "userDataSyncStore s \<Longrightarrow>
     sync s =
       (fst (syncRound (s\<lparr>syncErrors := []\<rparr>)),
        emit (SyncErrors (syncErrors (snd (syncRound (s\<lparr>syncErrors := []\<rparr>)))))
          (updateStatus (snd (syncRound (s\<lparr>syncErrors := []\<rparr>)))))"
  by (simp add: sync_def Let_def split: prod.split)

text \<open>The \<open>finally\<close> block of \<open>sync\<close> runs whatever the round did.\<close>

lemma sync_finally:
  assumes "userDataSyncStore s"
  shows "status (snd (sync s)) = computeStatus (snd (sync s))
    \<and> conflictsSources (snd (sync s)) = computeConflictsSources (snd (sync s))
    \<and> last (trace (snd (sync s))) = SyncErrors (syncErrors (snd (sync s)))"
  by (simp add: sync_enabled [OF assms] computeStatus_def computeConflictsSources_def)

lemma syncBody_call: "syncBody manifest i t = awaitCall (syncCall manifest (synchronisers t ! i)) i t"
  by (simp add: syncBody_def syncCall_def)

lemma sync_round:
  assumes en: "userDataSyncStore s"
    and man: "manifests s (fetched s) = Inr manifest"
    and on: "(manifest = None \<and> hasPreviouslySynced s) = False"
    and sess: "sessionMismatch (storageGet SESSION_ID_KEY s) manifest = False"
    and ok: "\<forall>x\<in>set (synchronisers s). \<not> throwsStoreError (syncCall manifest) x"
  shows "fst (sync s) =
       (if manifest = None
        then (case manifests s (Suc (fetched s)) of Inl e \<Rightarrow> Some e | Inr m \<Rightarrow> None)
        else None)
    \<and> calls (trace (snd (sync s))) =
        calls (trace s) @ map (\<lambda>x. (source x, syncCall manifest x)) (synchronisers s)
    \<and> logged (trace (snd (sync s))) =
        logged (trace s) @ thrownErrors (syncCall manifest) (synchronisers s)
    \<and> syncErrors (snd (sync s)) = capturedErrors (syncCall manifest) (synchronisers s)"
proof -
  define s0 where "s0 = s\<lparr>syncErrors := []\<rparr>"
  define t where "t = syncStarted s0"
  have s0: "synchronisers s0 = synchronisers s" "manifests s0 = manifests s"
    "fetched s0 = fetched s" "storageGet SESSION_ID_KEY s0 = storageGet SESSION_ID_KEY s"
    "hasPreviouslySynced s0 = hasPreviouslySynced s" "indices s0 = indices s"
    "trace s0 = trace s" "syncErrors s0 = []"
    by (simp_all add: s0_def storageGet_def hasPreviouslySynced_def indices_def)
  have ok_t: "\<forall>x\<in>set (synchronisers t). \<not> throwsStoreError (syncCall manifest) x"
    using ok by (simp add: t_def s0)
  note loop = forEachSynchroniser_all
    [of "syncBody manifest" "syncCall manifest" syncCatch
        "\<lambda>src e. [(src, toUserDataSyncError e)]" t,
     OF syncBody_call _ _ _ _ _ _ ok_t]
  have it: "indices t = indices s"
    by (simp add: t_def indices_def s0)
  define u where "u = snd (forEachSynchroniser (syncBody manifest) syncCatch (indices s) t)"
  have run: "forEachSynchroniser (syncBody manifest) syncCatch (indices s) t = (None, u)"
    using loop by (simp add: u_def it prod_eq_iff)
  have t: "synchronisers t = synchronisers s"
    "calls (trace t) = calls (trace s)" "logged (trace t) = logged (trace s)"
    "syncErrors t = []" "fetched t = Suc (fetched s)" "manifests t = manifests s"
    by (simp_all add: t_def s0)
  have u: "calls (trace u) =
        calls (trace s) @ map (\<lambda>x. (source x, syncCall manifest x)) (synchronisers s)"
    "logged (trace u) = logged (trace s) @ thrownErrors (syncCall manifest) (synchronisers s)"
    "syncErrors u = capturedErrors (syncCall manifest) (synchronisers s)"
    "fetched u = Suc (fetched s)" "manifests u = manifests s"
    using loop unfolding it u_def [symmetric] t concat_captured by simp_all
  have round: "syncRound s0 = syncCompleted (storageGet SESSION_ID_KEY s) manifest u"
    by (simp only: syncRound_unfold s0 man on sess run t_def [symmetric] sum.case if_False prod.case option.case)
  show ?thesis
    by (simp add: sync_enabled [OF en] s0_def [symmetric] round syncCompleted_result u)
qed

lemma sync_abort_round:
  assumes en: "userDataSyncStore s"
    and man: "manifests s (fetched s) = Inr manifest"
    and on: "(manifest = None \<and> hasPreviouslySynced s) = False"
    and sess: "sessionMismatch (storageGet SESSION_ID_KEY s) manifest = False"
    and k: "k < length (synchronisers s)"
    and before: "\<forall>j<k. \<not> throwsStoreError (syncCall manifest) (synchronisers s ! j)"
    and at: "thrownBy (syncCall manifest) (synchronisers s ! k) = Some e"
      "isUserDataSyncStoreError e"
  shows "fst (sync s) = Some e
    \<and> calls (trace (snd (sync s))) =
        calls (trace s)
        @ map (\<lambda>x. (source x, syncCall manifest x)) (take (Suc k) (synchronisers s))
    \<and> syncErrors (snd (sync s)) = capturedErrors (syncCall manifest) (take k (synchronisers s))"
proof -
  define s0 where "s0 = s\<lparr>syncErrors := []\<rparr>"
  define t where "t = syncStarted s0"
  define n where "n = length (synchronisers s)"
  have s0: "synchronisers s0 = synchronisers s" "manifests s0 = manifests s"
    "fetched s0 = fetched s" "storageGet SESSION_ID_KEY s0 = storageGet SESSION_ID_KEY s"
    "hasPreviouslySynced s0 = hasPreviouslySynced s" "indices s0 = indices s"
    "trace s0 = trace s" "syncErrors s0 = []"
    by (simp_all add: s0_def storageGet_def hasPreviouslySynced_def indices_def)
  have st: "synchronisers t = synchronisers s"
    by (simp add: t_def s0)
  have t: "calls (trace t) = calls (trace s)" "syncErrors t = []"
    by (simp_all add: t_def s0)
  have dist: "distinct ([0..<k] @ k # [Suc k..<n])"
    using k by (auto simp add: n_def)
  have ok: "\<forall>j\<in>set [0..<k]. j < length (synchronisers t)
      \<and> \<not> throwsStoreError (syncCall manifest) (synchronisers t ! j)"
    using before k by (simp add: st)
  have k_t: "k < length (synchronisers t)"
    using k by (simp add: st)
  have at_t: "thrownBy (syncCall manifest) (synchronisers t ! k) = Some e"
    using at by (simp add: st)
  note loop = forEachSynchroniser_abort
    [of "syncBody manifest" "syncCall manifest" syncCatch
        "\<lambda>src e. [(src, toUserDataSyncError e)]" "[0..<k]" k "[Suc k..<n]" t e,
     OF syncBody_call _ _ _ _ _ _ _ dist ok k_t at_t at(2)]
  have split: "indices s = [0..<k] @ k # [Suc k..<n]"
    using indices_split [OF k] by (simp add: n_def)
  define u where "u = snd (forEachSynchroniser (syncBody manifest) syncCatch (indices s) t)"
  have run: "forEachSynchroniser (syncBody manifest) syncCatch (indices s) t = (Some e, u)"
    using loop by (simp add: u_def split prod_eq_iff)
  have upto: "[0..<k] @ [k] = [0..<Suc k]"
    by simp
  have m1: "map (\<lambda>j. (source (synchronisers s ! j), syncCall manifest (synchronisers s ! j)))
              [0..<Suc k] =
            map (\<lambda>x. (source x, syncCall manifest x)) (take (Suc k) (synchronisers s))"
    using k by (intro map_nth_take) simp
  have m2: "map (\<lambda>j. case thrownBy (syncCall manifest) (synchronisers s ! j) of
                       None \<Rightarrow> []
                     | Some e \<Rightarrow> [(source (synchronisers s ! j), toUserDataSyncError e)])
              [0..<k] =
            map (\<lambda>x. case thrownBy (syncCall manifest) x of
                       None \<Rightarrow> []
                     | Some e \<Rightarrow> [(source x, toUserDataSyncError e)])
              (take k (synchronisers s))"
    using k by (intro map_nth_take) simp
  have u: "calls (trace u) =
        calls (trace s)
        @ map (\<lambda>x. (source x, syncCall manifest x)) (take (Suc k) (synchronisers s))"
    "syncErrors u = capturedErrors (syncCall manifest) (take k (synchronisers s))"
    using loop
    unfolding split [symmetric] u_def [symmetric] st upto m1 m2 concat_captured t
    by simp_all
  have round: "syncRound s0 = (Some e, u)"
    by (simp only: syncRound_unfold s0 man on sess run t_def [symmetric] sum.case if_False prod.case option.case)
  show ?thesis
    by (simp add: sync_enabled [OF en] s0_def [symmetric] round u)
qed

section \<open>The aggregate status\<close>

text \<open>
  Claim C5. For every list of synchroniser statuses the recomputed aggregate status is
  the one of the spec's table: Uninitialized when the store is not configured, else
  HasConflicts when some synchroniser has conflicts, else Syncing when some synchroniser
  is syncing, else Idle. This is what \<open>computeStatus\<close> returns and what
  \<open>updateStatus\<close> leaves in the status field.
\<close>

theorem computeStatus_table:
  "computeStatus s =
     aggregateStatus (userDataSyncStore s) (map synchroniserStatus (synchronisers s))
   \<and> status (updateStatus s) =
     aggregateStatus (userDataSyncStore s) (map synchroniserStatus (synchronisers s))"
  by (simp add: computeStatus_aggregate)

theorem computeStatus_table_witness:
  "status (updateStatus (exampleService True Idle
      [worker Settings ''settings'' Idle, worker Keybindings ''keybindings'' Syncing,
       worker GlobalState ''globalState'' HasConflicts, worker Extensions ''extensions'' Idle]
      None Map.empty)) = HasConflicts"
  using computeStatus_table [of "exampleService True Idle
      [worker Settings ''settings'' Idle, worker Keybindings ''keybindings'' Syncing,
       worker GlobalState ''globalState'' HasConflicts, worker Extensions ''extensions'' Idle]
      None Map.empty"]
  by (simp add: aggregateStatus_def exampleService_def worker_def synchroniserStatus_def)

section \<open>Leaving the conflicts status\<close>

text \<open>
  Claim C2, as stated, fails: a change of the aggregate status from HasConflicts to
  Syncing does not refresh the last sync time, because \<open>updateLastSyncTime\<close> writes
  only when the new status is Idle. The example service is constructed over a settings
  synchroniser with conflicts and a keybindings synchroniser that is syncing; accepting
  the settings content resolves the conflict, the status leaves HasConflicts for
  Syncing, and the last sync time stays unset.
\<close>

theorem leaving_conflicts_counterexample:
  "status (construct (exampleService True Uninitialized
      [worker Settings ''settings'' HasConflicts, worker Keybindings ''keybindings'' Syncing]
      None Map.empty)) = HasConflicts
   \<and> status (snd (accept Settings ''{}'' (construct (exampleService True Uninitialized
      [worker Settings ''settings'' HasConflicts, worker Keybindings ''keybindings'' Syncing]
      None Map.empty)))) = Syncing
   \<and> lastSyncTime (snd (accept Settings ''{}'' (construct (exampleService True Uninitialized
      [worker Settings ''settings'' HasConflicts, worker Keybindings ''keybindings'' Syncing]
      None Map.empty)))) = None
   \<and> trace (snd (accept Settings ''{}'' (construct (exampleService True Uninitialized
      [worker Settings ''settings'' HasConflicts, worker Keybindings ''keybindings'' Syncing]
      None Map.empty)))) =
     [DidChangeConflicts [Settings], DidChangeStatus HasConflicts,
      Called Settings (Accept ''{}''), DidChangeConflicts [], DidChangeStatus Syncing]"
  by (simp add: construct_def accept_def awaitCall_def respond_def onDidChangeStatus_def
        setInternal_def updateStatus_def setStatus_def updateLastSyncTime_def
        computeStatus_def computeConflictsSources_def synchroniserStatus_def
        checkEnablement_def getSynchroniser_def storageGetNumber_def emit_def
        exampleService_def worker_def settling_def LAST_SYNC_TIME_KEY_def Let_def)

text \<open>
  Claim C2, amended. When the aggregate status changes from HasConflicts to Idle, the
  last sync time is refreshed: it is set to the current time, persisted, and the change
  is notified. A change from HasConflicts to Syncing or to Uninitialized leaves the last
  sync time, the storage and the notifications of the last sync time as they were.
\<close>

theorem leaving_conflicts_refreshes_when_idle:
  assumes "status s = HasConflicts"
  shows "lastSyncTime (setStatus Idle s) = Some (clock s)
     \<and> storage (setStatus Idle s) LAST_SYNC_TIME_KEY = Some (NumberValue (clock s))
     \<and> fired s (setStatus Idle s) = [DidChangeStatus Idle, DidChangeLastSyncTime (clock s)]
     \<and> (st \<noteq> Idle \<longrightarrow> lastSyncTime (setStatus st s) = lastSyncTime s
          \<and> storage (setStatus st s) = storage s
          \<and> fired s (setStatus st s) = (if st = HasConflicts then [] else [DidChangeStatus st]))"
  using assms
  by (simp add: setStatus_def updateLastSyncTime_def Let_def fired_def emit_def)

theorem leaving_conflicts_refreshes_when_idle_witness:
  "status (exampleService True HasConflicts [] None Map.empty) = HasConflicts
   \<and> lastSyncTime (setStatus Idle (exampleService True HasConflicts [] None Map.empty)) =
       Some 1000
   \<and> lastSyncTime (setStatus Syncing (exampleService True HasConflicts [] None Map.empty)) =
       None"
  using leaving_conflicts_refreshes_when_idle
          [of "exampleService True HasConflicts [] None Map.empty" Syncing]
  by (simp add: exampleService_def)

section \<open>Error isolation in the rounds\<close>

lemma capturedErrors_sources:
  "fst ` set (capturedErrors mk xs) \<subseteq> source ` set xs"
  by (induction xs) (auto split: option.split)

lemma capturedErrors_none:
  "src \<notin> source ` set xs \<Longrightarrow> filter (\<lambda>p. fst p = src) (capturedErrors mk xs) = []"
  using capturedErrors_sources [of mk xs] by (auto simp add: filter_empty_conv)

lemma capturedErrors_count:
  "distinct (map source xs) \<Longrightarrow> x \<in> set xs \<Longrightarrow>
     length (filter (\<lambda>p. fst p = source x) (capturedErrors mk xs)) =
       (if thrownBy mk x = None then 0 else 1)"
proof (induction xs)
  case Nil
  then show ?case by simp
next
  case (Cons y ys)
  show ?case
  proof (cases "x = y")
    case True
    have "source y \<notin> source ` set ys"
      using Cons.prems(1) by simp
    then show ?thesis
      using True by (simp add: capturedErrors_none split: option.split)
  next
    case False
    then have x: "x \<in> set ys" using Cons.prems(2) by simp
    then have "source x \<in> source ` set ys"
      by (rule imageI)
    then have "source x \<noteq> source y"
      using Cons.prems(1) by auto
    then have same: "filter (\<lambda>p. fst p = source x) (capturedErrors mk (y # ys)) =
        filter (\<lambda>p. fst p = source x) (capturedErrors mk ys)"
      by (auto split: option.split)
    have "distinct (map source ys)"
      using Cons.prems(1) by simp
    then show ?thesis
      unfolding same using x by (rule Cons.IH)
  qed
qed

lemma capturedErrors_not_store:
  "\<forall>x\<in>set xs. \<not> throwsStoreError mk x \<Longrightarrow>
     \<forall>p\<in>set (capturedErrors mk xs). \<not> isUserDataSyncStoreError (snd p)"
proof (induction xs)
  case Nil
  then show ?case by simp
next
  case (Cons y ys)
  have "\<not> isUserDataSyncStoreError e \<Longrightarrow> \<not> isUserDataSyncStoreError (toUserDataSyncError e)" for e
    by (cases e) simp_all
  then show ?case
    using Cons by (auto simp add: throwsStoreError_def split: option.split)
qed

text \<open>
  Claim C1, as stated, fails: the service rethrows every \<open>UserDataSyncStoreError\<close>,
  whatever its code, not only the one with code TooLarge. In the example the second of
  four synchronisers throws a store error with the code Unauthorized: the error
  propagates out of \<open>sync\<close>, the third and fourth synchroniser receive no call, and
  the error list of the round has no entry.
\<close>

theorem store_error_counterexample:
  "fst (sync (exampleService True Idle
      [worker Settings ''settings'' Idle,
       failing (UserDataSyncStoreError ''401'' (OtherCode ''Unauthorized''))
         Keybindings ''keybindings'' Idle,
       worker GlobalState ''globalState'' Idle, worker Extensions ''extensions'' Idle]
      (Some (exampleManifest ''A'')) Map.empty)) =
     Some (UserDataSyncStoreError ''401'' (OtherCode ''Unauthorized''))
   \<and> calls (trace (snd (sync (exampleService True Idle
      [worker Settings ''settings'' Idle,
       failing (UserDataSyncStoreError ''401'' (OtherCode ''Unauthorized''))
         Keybindings ''keybindings'' Idle,
       worker GlobalState ''globalState'' Idle, worker Extensions ''extensions'' Idle]
      (Some (exampleManifest ''A'')) Map.empty)))) =
     [(Settings, Sync None), (Keybindings, Sync None)]
   \<and> syncErrors (snd (sync (exampleService True Idle
      [worker Settings ''settings'' Idle,
       failing (UserDataSyncStoreError ''401'' (OtherCode ''Unauthorized''))
         Keybindings ''keybindings'' Idle,
       worker GlobalState ''globalState'' Idle, worker Extensions ''extensions'' Idle]
      (Some (exampleManifest ''A'')) Map.empty))) = []"
  using sync_abort_round [of "exampleService True Idle
      [worker Settings ''settings'' Idle,
       failing (UserDataSyncStoreError ''401'' (OtherCode ''Unauthorized''))
         Keybindings ''keybindings'' Idle,
       worker GlobalState ''globalState'' Idle, worker Extensions ''extensions'' Idle]
      (Some (exampleManifest ''A'')) Map.empty" "Some (exampleManifest ''A'')" 1
      "UserDataSyncStoreError ''401'' (OtherCode ''Unauthorized'')"]
  by (simp add: exampleService_def exampleManifest_def worker_def failing_def rejecting_def
        settling_def sessionMismatch_def storageGet_def throwsStoreError_def thrownBy_def
        respond_def syncCall_def remoteRef_def)

text \<open>
  Claim C1, amended. In \<open>pull\<close>, \<open>push\<close> and \<open>sync\<close> an exception of a
  synchroniser propagates out of the loop only if it is a \<open>UserDataSyncStoreError\<close>
  (of any code, TooLarge among them). When no synchroniser throws such an error, every
  synchroniser receives its call, in the order of the array, every exception thrown is
  logged, nothing propagates out of the loop, and the error list of a \<open>sync\<close> round
  holds one entry for each synchroniser that threw, in order; with pairwise different
  sources this is exactly one entry for the source of a synchroniser that threw and none
  for the others. (After the loop \<open>sync\<close> fetches the manifest again when it was
  absent, and fails only if that fetch fails.)
\<close>

theorem only_store_errors_propagate:
  assumes "userDataSyncStore s"
  shows "((\<forall>x\<in>set (synchronisers s). \<not> throwsStoreError (\<lambda>x. Pull) x) \<longrightarrow>
        fst (pull s) = None
        \<and> calls (trace (snd (pull s))) =
            calls (trace s) @ map (\<lambda>x. (source x, Pull)) (synchronisers s)
        \<and> logged (trace (snd (pull s))) =
            logged (trace s) @ thrownErrors (\<lambda>x. Pull) (synchronisers s))
    \<and> ((\<forall>x\<in>set (synchronisers s). \<not> throwsStoreError (\<lambda>x. Push) x) \<longrightarrow>
        fst (push s) = None
        \<and> calls (trace (snd (push s))) =
            calls (trace s) @ map (\<lambda>x. (source x, Push)) (synchronisers s)
        \<and> logged (trace (snd (push s))) =
            logged (trace s) @ thrownErrors (\<lambda>x. Push) (synchronisers s))
    \<and> (manifests s (fetched s) = Inr manifest
        \<and> \<not> (manifest = None \<and> hasPreviouslySynced s)
        \<and> \<not> sessionMismatch (storageGet SESSION_ID_KEY s) manifest
        \<and> (\<forall>x\<in>set (synchronisers s). \<not> throwsStoreError (syncCall manifest) x) \<longrightarrow>
        fst (sync s) =
          (if manifest = None
           then (case manifests s (Suc (fetched s)) of Inl e \<Rightarrow> Some e | Inr m \<Rightarrow> None)
           else None)
        \<and> calls (trace (snd (sync s))) =
            calls (trace s) @ map (\<lambda>x. (source x, syncCall manifest x)) (synchronisers s)
        \<and> logged (trace (snd (sync s))) =
            logged (trace s) @ thrownErrors (syncCall manifest) (synchronisers s)
        \<and> syncErrors (snd (sync s)) = capturedErrors (syncCall manifest) (synchronisers s)
        \<and> (distinct (map source (synchronisers s)) \<longrightarrow>
            (\<forall>x\<in>set (synchronisers s).
               length (filter (\<lambda>p. fst p = source x) (syncErrors (snd (sync s)))) =
                 (if thrownBy (syncCall manifest) x = None then 0 else 1))))"
proof (intro conjI impI)
  assume "\<forall>x\<in>set (synchronisers s). \<not> throwsStoreError (\<lambda>x. Pull) x"
  note r = pull_round [OF assms this]
  show "fst (pull s) = None" using r by simp
  show "calls (trace (snd (pull s))) =
      calls (trace s) @ map (\<lambda>x. (source x, Pull)) (synchronisers s)" using r by simp
  show "logged (trace (snd (pull s))) =
      logged (trace s) @ thrownErrors (\<lambda>x. Pull) (synchronisers s)" using r by simp
next
  assume "\<forall>x\<in>set (synchronisers s). \<not> throwsStoreError (\<lambda>x. Push) x"
  note r = push_round [OF assms this]
  show "fst (push s) = None" using r by simp
  show "calls (trace (snd (push s))) =
      calls (trace s) @ map (\<lambda>x. (source x, Push)) (synchronisers s)" using r by simp
  show "logged (trace (snd (push s))) =
      logged (trace s) @ thrownErrors (\<lambda>x. Push) (synchronisers s)" using r by simp
next
  assume a: "manifests s (fetched s) = Inr manifest
        \<and> \<not> (manifest = None \<and> hasPreviouslySynced s)
        \<and> \<not> sessionMismatch (storageGet SESSION_ID_KEY s) manifest
        \<and> (\<forall>x\<in>set (synchronisers s). \<not> throwsStoreError (syncCall manifest) x)"
  have r: "fst (sync s) =
       (if manifest = None
        then (case manifests s (Suc (fetched s)) of Inl e \<Rightarrow> Some e | Inr m \<Rightarrow> None)
        else None)
    \<and> calls (trace (snd (sync s))) =
        calls (trace s) @ map (\<lambda>x. (source x, syncCall manifest x)) (synchronisers s)
    \<and> logged (trace (snd (sync s))) =
        logged (trace s) @ thrownErrors (syncCall manifest) (synchronisers s)
    \<and> syncErrors (snd (sync s)) = capturedErrors (syncCall manifest) (synchronisers s)"
    using a by (intro sync_round [OF assms]) simp_all
  show "fst (sync s) =
       (if manifest = None
        then (case manifests s (Suc (fetched s)) of Inl e \<Rightarrow> Some e | Inr m \<Rightarrow> None)
        else None)" using r by simp
  show "calls (trace (snd (sync s))) =
        calls (trace s) @ map (\<lambda>x. (source x, syncCall manifest x)) (synchronisers s)"
    using r by simp
  show "logged (trace (snd (sync s))) =
        logged (trace s) @ thrownErrors (syncCall manifest) (synchronisers s)"
    using r by simp
  show "syncErrors (snd (sync s)) = capturedErrors (syncCall manifest) (synchronisers s)"
    using r by simp
  assume "distinct (map source (synchronisers s))"
  then show "\<forall>x\<in>set (synchronisers s).
               length (filter (\<lambda>p. fst p = source x) (syncErrors (snd (sync s)))) =
                 (if thrownBy (syncCall manifest) x = None then 0 else 1)"
    using r by (simp add: capturedErrors_count)
qed

theorem only_store_errors_propagate_witness:
  "fst (sync (exampleService True Idle
      [worker Settings ''settings'' Idle,
       failing (Error ''disk full'') Keybindings ''keybindings'' Idle,
       worker GlobalState ''globalState'' Idle, worker Extensions ''extensions'' Idle]
      (Some (exampleManifest ''A'')) Map.empty)) = None
   \<and> calls (trace (snd (sync (exampleService True Idle
      [worker Settings ''settings'' Idle,
       failing (Error ''disk full'') Keybindings ''keybindings'' Idle,
       worker GlobalState ''globalState'' Idle, worker Extensions ''extensions'' Idle]
      (Some (exampleManifest ''A'')) Map.empty)))) =
     [(Settings, Sync None), (Keybindings, Sync None), (GlobalState, Sync None),
      (Extensions, Sync None)]
   \<and> syncErrors (snd (sync (exampleService True Idle
      [worker Settings ''settings'' Idle,
       failing (Error ''disk full'') Keybindings ''keybindings'' Idle,
       worker GlobalState ''globalState'' Idle, worker Extensions ''extensions'' Idle]
      (Some (exampleManifest ''A'')) Map.empty))) =
     [(Keybindings, UserDataSyncError ''disk full'' Unknown)]
   \<and> fst (pull (exampleService True Idle
      [worker Settings ''settings'' Idle,
       failing (Error ''disk full'') Keybindings ''keybindings'' Idle,
       worker GlobalState ''globalState'' Idle, worker Extensions ''extensions'' Idle]
      (Some (exampleManifest ''A'')) Map.empty)) = None
   \<and> logged (trace (snd (push (exampleService True Idle
      [worker Settings ''settings'' Idle,
       failing (Error ''disk full'') Keybindings ''keybindings'' Idle,
       worker GlobalState ''globalState'' Idle, worker Extensions ''extensions'' Idle]
      (Some (exampleManifest ''A'')) Map.empty)))) = [Error ''disk full'']"
  using only_store_errors_propagate [of "exampleService True Idle
      [worker Settings ''settings'' Idle,
       failing (Error ''disk full'') Keybindings ''keybindings'' Idle,
       worker GlobalState ''globalState'' Idle, worker Extensions ''extensions'' Idle]
      (Some (exampleManifest ''A'')) Map.empty" "Some (exampleManifest ''A'')"]
  by (simp add: exampleService_def exampleManifest_def worker_def failing_def rejecting_def
        settling_def sessionMismatch_def storageGet_def throwsStoreError_def thrownBy_def
        respond_def syncCall_def remoteRef_def)

lemma take_all_nth:
  "k \<le> length xs \<Longrightarrow> \<forall>j<k. P (xs ! j) \<Longrightarrow> \<forall>x\<in>set (take k xs). P x"
  by (auto simp add: in_set_conv_nth)

text \<open>
  Claim C10. In a \<open>sync\<close> round that reaches the loop, let synchroniser \<open>k\<close> be the
  first whose \<open>sync\<close> throws a store error \<open>e\<close>. Then \<open>e\<close> propagates to the
  caller; the synchronisers up to \<open>k\<close> are the only ones invoked; the error list of
  the round holds the errors captured before \<open>k\<close> and not \<open>e\<close>; and the
  \<open>finally\<close> block has still run: the aggregate status and the conflict sources are
  the recomputed ones, and the last event is the batch notification of that error list.
\<close>

theorem sync_store_error_aborts:
  assumes "userDataSyncStore s"
    and "manifests s (fetched s) = Inr manifest"
    and "\<not> (manifest = None \<and> hasPreviouslySynced s)"
    and "\<not> sessionMismatch (storageGet SESSION_ID_KEY s) manifest"
    and "k < length (synchronisers s)"
    and "\<forall>j<k. \<not> throwsStoreError (syncCall manifest) (synchronisers s ! j)"
    and "thrownBy (syncCall manifest) (synchronisers s ! k) = Some e"
    and "isUserDataSyncStoreError e"
  shows "fst (sync s) = Some e
    \<and> calls (trace (snd (sync s))) =
        calls (trace s)
        @ map (\<lambda>x. (source x, syncCall manifest x)) (take (Suc k) (synchronisers s))
    \<and> syncErrors (snd (sync s)) = capturedErrors (syncCall manifest) (take k (synchronisers s))
    \<and> e \<notin> snd ` set (syncErrors (snd (sync s)))
    \<and> status (snd (sync s)) = computeStatus (snd (sync s))
    \<and> conflictsSources (snd (sync s)) = computeConflictsSources (snd (sync s))
    \<and> last (trace (snd (sync s))) = SyncErrors (syncErrors (snd (sync s)))"
proof -
  have on: "(manifest = None \<and> hasPreviouslySynced s) = False"
    and sess: "sessionMismatch (storageGet SESSION_ID_KEY s) manifest = False"
    using assms(3,4) by simp_all
  note r = sync_abort_round [OF assms(1,2) on sess assms(5-8)]
  have "\<forall>x\<in>set (take k (synchronisers s)). \<not> throwsStoreError (syncCall manifest) x"
    using assms(5,6) by (intro take_all_nth) simp_all
  then have "\<forall>p\<in>set (capturedErrors (syncCall manifest) (take k (synchronisers s))).
      \<not> isUserDataSyncStoreError (snd p)"
    by (rule capturedErrors_not_store)
  then have absent: "e \<notin> snd ` set (syncErrors (snd (sync s)))"
    using r assms(8) by auto
  show ?thesis
    using r absent sync_finally [OF assms(1)] by simp
qed

theorem sync_store_error_aborts_witness:
  "fst (sync (exampleService True Idle
      [failing (Error ''disk full'') Settings ''settings'' Idle,
       failing (UserDataSyncStoreError ''413'' TooLarge) Keybindings ''keybindings'' Idle,
       worker GlobalState ''globalState'' Idle, worker Extensions ''extensions'' Idle]
      (Some (exampleManifest ''A'')) Map.empty)) =
     Some (UserDataSyncStoreError ''413'' TooLarge)
   \<and> calls (trace (snd (sync (exampleService True Idle
      [failing (Error ''disk full'') Settings ''settings'' Idle,
       failing (UserDataSyncStoreError ''413'' TooLarge) Keybindings ''keybindings'' Idle,
       worker GlobalState ''globalState'' Idle, worker Extensions ''extensions'' Idle]
      (Some (exampleManifest ''A'')) Map.empty)))) =
     [(Settings, Sync None), (Keybindings, Sync None)]
   \<and> syncErrors (snd (sync (exampleService True Idle
      [failing (Error ''disk full'') Settings ''settings'' Idle,
       failing (UserDataSyncStoreError ''413'' TooLarge) Keybindings ''keybindings'' Idle,
       worker GlobalState ''globalState'' Idle, worker Extensions ''extensions'' Idle]
      (Some (exampleManifest ''A'')) Map.empty))) =
     [(Settings, UserDataSyncError ''disk full'' Unknown)]
   \<and> last (trace (snd (sync (exampleService True Idle
      [failing (Error ''disk full'') Settings ''settings'' Idle,
       failing (UserDataSyncStoreError ''413'' TooLarge) Keybindings ''keybindings'' Idle,
       worker GlobalState ''globalState'' Idle, worker Extensions ''extensions'' Idle]
      (Some (exampleManifest ''A'')) Map.empty)))) =
     SyncErrors [(Settings, UserDataSyncError ''disk full'' Unknown)]"
  using sync_store_error_aborts [of "exampleService True Idle
      [failing (Error ''disk full'') Settings ''settings'' Idle,
       failing (UserDataSyncStoreError ''413'' TooLarge) Keybindings ''keybindings'' Idle,
       worker GlobalState ''globalState'' Idle, worker Extensions ''extensions'' Idle]
      (Some (exampleManifest ''A'')) Map.empty" "Some (exampleManifest ''A'')" 1
      "UserDataSyncStoreError ''413'' TooLarge"]
  by (simp add: exampleService_def exampleManifest_def worker_def failing_def rejecting_def
        settling_def sessionMismatch_def storageGet_def throwsStoreError_def thrownBy_def
        respond_def syncCall_def remoteRef_def)

section \<open>Rounds that fail before the loop\<close>

lemma sync_fails_early:
  assumes "userDataSyncStore s"
    and "fst (syncRound (s\<lparr>syncErrors := []\<rparr>)) = Some e"
    and "snd (syncRound (s\<lparr>syncErrors := []\<rparr>)) = syncStarted (s\<lparr>syncErrors := []\<rparr>)"
  shows "fst (sync s) = Some e
    \<and> calls (trace (snd (sync s))) = calls (trace s)
    \<and> synchronisers (snd (sync s)) = synchronisers s"
  using assms(2,3) by (simp add: sync_enabled [OF assms(1)])

text \<open>
  Claim C6. If \<open>sync\<close> fetches a null manifest and some synchroniser reports that it
  has synced before, the round fails with the TurnedOff error, no synchroniser receives
  a call, and the synchronisers are left as they were.
\<close>

theorem sync_turned_off:
  assumes "userDataSyncStore s"
    and "manifests s (fetched s) = Inr None"
    and "\<exists>x\<in>set (synchronisers s). s_hasPreviouslySynced x (internal x)"
  shows "fst (sync s) =
       Some (UserDataSyncError ''Cannot sync because syncing is turned off in the cloud''
               TurnedOff)
    \<and> calls (trace (snd (sync s))) = calls (trace s)
    \<and> synchronisers (snd (sync s)) = synchronisers s"
proof -
  have "hasPreviouslySynced (s\<lparr>syncErrors := []\<rparr>)"
    using assms(3) by (simp add: hasPreviouslySynced_def list_ex_iff)
  then have "syncRound (s\<lparr>syncErrors := []\<rparr>) =
      (Some (UserDataSyncError ''Cannot sync because syncing is turned off in the cloud''
               TurnedOff),
       syncStarted (s\<lparr>syncErrors := []\<rparr>))"
    using assms(2) by (simp add: syncRound_unfold)
  then show ?thesis
    by (intro sync_fails_early [OF assms(1)]) simp_all
qed

theorem sync_turned_off_witness:
  "fst (sync (exampleService True Idle
      [worker Settings ''settings'' Idle,
       (worker Keybindings ''keybindings'' Idle)\<lparr>s_hasPreviouslySynced := (\<lambda>st. True)\<rparr>]
      None Map.empty)) =
     Some (UserDataSyncError ''Cannot sync because syncing is turned off in the cloud''
             TurnedOff)
   \<and> calls (trace (snd (sync (exampleService True Idle
      [worker Settings ''settings'' Idle,
       (worker Keybindings ''keybindings'' Idle)\<lparr>s_hasPreviouslySynced := (\<lambda>st. True)\<rparr>]
      None Map.empty)))) = []"
  using sync_turned_off [of "exampleService True Idle
      [worker Settings ''settings'' Idle,
       (worker Keybindings ''keybindings'' Idle)\<lparr>s_hasPreviouslySynced := (\<lambda>st. True)\<rparr>]
      None Map.empty"]
  by (simp add: exampleService_def worker_def)

text \<open>
  Claim C7. If a session id is persisted locally (the test of the code is
  \<open>sessionId && ...\<close>: a string that is not empty) and the session id of the fetched
  manifest differs from it, \<open>sync\<close> fails with the SessionExpired error, no
  synchroniser receives a call, and the synchronisers are left as they were.
\<close>

theorem sync_session_expired:
  assumes "userDataSyncStore s"
    and "manifests s (fetched s) = Inr (Some m)"
    and "storageGet SESSION_ID_KEY s = Some sid"
    and "sid \<noteq> []"
    and "session m \<noteq> sid"
  shows "fst (sync s) =
       Some (UserDataSyncError ''Cannot sync because current session is expired''
               SessionExpired)
    \<and> calls (trace (snd (sync s))) = calls (trace s)
    \<and> synchronisers (snd (sync s)) = synchronisers s"
proof -
  have "storageGet SESSION_ID_KEY (s\<lparr>syncErrors := []\<rparr>) = Some sid"
    using assms(3) by (simp add: storageGet_def)
  then have "syncRound (s\<lparr>syncErrors := []\<rparr>) =
      (Some (UserDataSyncError ''Cannot sync because current session is expired''
               SessionExpired),
       syncStarted (s\<lparr>syncErrors := []\<rparr>))"
    using assms(2,4,5) by (auto simp add: syncRound_unfold sessionMismatch_def)
  then show ?thesis
    by (intro sync_fails_early [OF assms(1)]) simp_all
qed

theorem sync_session_expired_witness:
  "fst (sync (exampleService True Idle [worker Settings ''settings'' Idle]
      (Some (exampleManifest ''B'')) [SESSION_ID_KEY \<mapsto> StringValue ''A''])) =
     Some (UserDataSyncError ''Cannot sync because current session is expired''
             SessionExpired)
   \<and> calls (trace (snd (sync (exampleService True Idle [worker Settings ''settings'' Idle]
      (Some (exampleManifest ''B'')) [SESSION_ID_KEY \<mapsto> StringValue ''A''])))) = []"
  using sync_session_expired [of "exampleService True Idle [worker Settings ''settings'' Idle]
      (Some (exampleManifest ''B'')) [SESSION_ID_KEY \<mapsto> StringValue ''A'']"
      "exampleManifest ''B''" "''A''"]
  by (simp add: exampleService_def exampleManifest_def storageGet_def)

section \<open>First-time sync, enablement and conflict notifications\<close>

text \<open>
  Claim C9. On an enabled service whose store answers the manifest request,
  \<open>isFirstTimeSyncWithMerge\<close> returns true exactly when a remote manifest exists, no
  synchroniser has synced before, and some synchroniser has local data; in every other
  combination of the three conditions it returns false.
\<close>

theorem isFirstTimeSyncWithMerge_table:
  assumes "userDataSyncStore s"
    and "manifests s (fetched s) = Inr manifest"
  shows "fst (isFirstTimeSyncWithMerge s) =
     Inr (manifest \<noteq> None
          \<and> \<not> (\<exists>x\<in>set (synchronisers s). s_hasPreviouslySynced x (internal x))
          \<and> (\<exists>x\<in>set (synchronisers s). s_hasLocalData x (internal x)))"
  using assms
  by (cases manifest)
     (simp_all add: isFirstTimeSyncWithMerge_def fetchManifest_def hasPreviouslySynced_def
        hasLocalData_def list_ex_iff)

theorem isFirstTimeSyncWithMerge_table_witness:
  "fst (isFirstTimeSyncWithMerge (exampleService True Idle
      [worker Settings ''settings'' Idle, worker Keybindings ''keybindings'' Idle]
      (Some (exampleManifest ''A'')) Map.empty)) = Inr True
   \<and> fst (isFirstTimeSyncWithMerge (exampleService True Idle
      [worker Settings ''settings'' Idle, worker Keybindings ''keybindings'' Idle]
      None Map.empty)) = Inr False
   \<and> fst (isFirstTimeSyncWithMerge (exampleService True Idle
      [worker Settings ''settings'' Idle,
       (worker Keybindings ''keybindings'' Idle)\<lparr>s_hasPreviouslySynced := (\<lambda>st. True)\<rparr>]
      (Some (exampleManifest ''A'')) Map.empty)) = Inr False"
  using isFirstTimeSyncWithMerge_table [of "exampleService True Idle
      [worker Settings ''settings'' Idle, worker Keybindings ''keybindings'' Idle]
      (Some (exampleManifest ''A'')) Map.empty" "Some (exampleManifest ''A'')"]
    isFirstTimeSyncWithMerge_table [of "exampleService True Idle
      [worker Settings ''settings'' Idle, worker Keybindings ''keybindings'' Idle]
      None Map.empty" None]
    isFirstTimeSyncWithMerge_table [of "exampleService True Idle
      [worker Settings ''settings'' Idle,
       (worker Keybindings ''keybindings'' Idle)\<lparr>s_hasPreviouslySynced := (\<lambda>st. True)\<rparr>]
      (Some (exampleManifest ''A'')) Map.empty" "Some (exampleManifest ''A'')"]
  by (simp add: exampleService_def worker_def)

text \<open>
  The operations that start with \<open>checkEnablement\<close> fail with the error
  \<open>Not enabled\<close> on a service whose store is not configured, and leave the service
  as it was.
\<close>

lemma not_enabled_fails:
  assumes "\<not> userDataSyncStore s"
  shows "pull s = (Some (Error ''Not enabled''), s)"
    and "push s = (Some (Error ''Not enabled''), s)"
    and "sync s = (Some (Error ''Not enabled''), s)"
    and "stop s = (Some (Error ''Not enabled''), s)"
    and "accept src content s = (Some (Error ''Not enabled''), s)"
    and "getRemoteContent src preview s = (Inl (Error ''Not enabled''), s)"
    and "isFirstTimeSyncWithMerge s = (Inl (Error ''Not enabled''), s)"
    and "reset s = (Some (Error ''Not enabled''), s)"
    and "resetLocal s = (Some (Error ''Not enabled''), s)"
  using assms
  by (simp_all add: checkEnablement_def pull_def push_def sync_def stop_def accept_def
        getRemoteContent_def isFirstTimeSyncWithMerge_def reset_def resetLocal_def)

text \<open>
  Claim C3. The claim holds for eight of the nine operations (lemma
  \<open>not_enabled_fails\<close>), and the code breaks it for \<open>resolveContent\<close>, which has
  no enablement check: on a service whose store is not configured, where
  \<open>getRemoteContent\<close> fails with \<open>Not enabled\<close>, \<open>resolveContent\<close> goes to
  the synchroniser of the resource key and returns what it resolves.
\<close>

theorem resolveContent_not_enabled:
  "checkEnablement (exampleService False Uninitialized [worker Settings ''settings'' Idle]
      None Map.empty) = Some (Error ''Not enabled'')
   \<and> fst (getRemoteContent Settings False (exampleService False Uninitialized
      [worker Settings ''settings'' Idle] None Map.empty)) = Inl (Error ''Not enabled'')
   \<and> fst (resolveContent ''settings'' ''ref-1'' (exampleService False Uninitialized
      [worker Settings ''settings'' Idle] None Map.empty)) = Inr (Some ''ref-1'')"
  by (simp add: checkEnablement_def getRemoteContent_def resolveContent_def
        exampleService_def worker_def)

text \<open>
  The conflict sources are always computed by filtering the one array of synchronisers,
  whose sources are pairwise different. Two such lists with the same elements are the
  same list, so on the states the service can reach the item-by-item comparison of
  \<open>equals\<close> and a comparison as unordered collections agree.
\<close>

lemma selection_in_order:
  "distinct (map f xs) \<Longrightarrow>
     map f (filter P xs) = filter (\<lambda>a. a \<in> set (map f (filter P xs))) (map f xs)"
proof (induction xs)
  case Nil
  then show ?case by simp
next
  case (Cons x xs)
  define S where "S = set (map f (filter P xs))"
  from Cons.prems have out: "f x \<notin> set (map f xs)" and d: "distinct (map f xs)"
    by simp_all
  have IH: "map f (filter P xs) = filter (\<lambda>a. a \<in> S) (map f xs)"
    unfolding S_def using d by (rule Cons.IH)
  have sub: "S \<subseteq> set (map f xs)"
    unfolding S_def by auto
  show ?case
  proof (cases "P x")
    case True
    have S': "set (map f (filter P (x # xs))) = insert (f x) S"
      using True by (simp add: S_def)
    have "a \<in> set (map f xs) \<Longrightarrow> a \<noteq> f x" for a
      using out by blast
    then have "filter (\<lambda>a. a \<in> insert (f x) S) (map f xs) = filter (\<lambda>a. a \<in> S) (map f xs)"
      by (intro filter_cong refl) simp
    then have "filter (\<lambda>a. a \<in> insert (f x) S) (map f (x # xs)) =
        f x # filter (\<lambda>a. a \<in> S) (map f xs)"
      by simp
    moreover have "map f (filter P (x # xs)) = f x # filter (\<lambda>a. a \<in> S) (map f xs)"
      using True IH by simp
    ultimately show ?thesis
      unfolding S' by simp
  next
    case False
    have S': "set (map f (filter P (x # xs))) = S"
      using False by (simp add: S_def)
    have "f x \<notin> S"
      using out sub by blast
    then have "filter (\<lambda>a. a \<in> S) (map f (x # xs)) = filter (\<lambda>a. a \<in> S) (map f xs)"
      by simp
    moreover have "map f (filter P (x # xs)) = filter (\<lambda>a. a \<in> S) (map f xs)"
      using False IH by simp
    ultimately show ?thesis
      unfolding S' by simp
  qed
qed

lemma in_order_eq:
  assumes "xs = filter (\<lambda>a. a \<in> set xs) zs" "ys = filter (\<lambda>a. a \<in> set ys) zs"
    and "set xs = set ys"
  shows "xs = ys"
  using assms by metis

lemma computed_in_order:
  "distinct (map source (synchronisers s)) \<Longrightarrow>
     computeConflictsSources s =
       filter (\<lambda>a. a \<in> set (computeConflictsSources s)) (map source (synchronisers s))"
  unfolding computeConflictsSources_def by (rule selection_in_order)

lemma conflictsInOrder_cong:
  "map source (synchronisers t) = map source (synchronisers s) \<Longrightarrow>
   conflictsSources t = conflictsSources s \<Longrightarrow> conflictsInOrder t = conflictsInOrder s"
  by (simp add: conflictsInOrder_def)

lemma conflictsInOrder_updateStatus:
  "distinct (map source (synchronisers s)) \<Longrightarrow> conflictsInOrder (updateStatus s)"
  using computed_in_order [of s] by (simp add: conflictsInOrder_def)

lemma conflictsInOrder_construct:
  "distinct (map source (synchronisers env)) \<Longrightarrow> conflictsInOrder (construct env)"
  using conflictsInOrder_updateStatus
    [of "env\<lparr>status := Uninitialized, conflictsSources := [], syncErrors := [],
             lastSyncTime := None\<rparr>"]
  by (simp add: construct_def Let_def conflictsInOrder_def)

lemma sources_update [simp]:
  "map source (xs[i := (xs ! i)\<lparr>internal := st\<rparr>]) = map source xs"
proof (cases "i < length xs")
  case True
  then have "(map source xs)[i := source (xs ! i)] = map source xs"
    by (metis list_update_id nth_map)
  then show ?thesis by (simp add: map_update)
next
  case False
  then show ?thesis by (simp add: list_update_beyond)
qed

lemma sources_setInternal [simp]:
  "map source (synchronisers (setInternal i st s)) = map source (synchronisers s)"
  by simp

lemma conflictsInOrder_setInternal [simp]:
  "conflictsInOrder (setInternal i st s) = conflictsInOrder s"
  by (rule conflictsInOrder_cong) simp_all

lemma conflictsInOrder_emit [simp]: "conflictsInOrder (emit e s) = conflictsInOrder s"
  by (rule conflictsInOrder_cong) simp_all

lemma conflictsInOrder_setStatus [simp]:
  "conflictsInOrder (setStatus st s) = conflictsInOrder s"
  by (rule conflictsInOrder_cong) simp_all

lemma conflictsInOrder_updateLastSyncTime [simp]:
  "conflictsInOrder (updateLastSyncTime s) = conflictsInOrder s"
  by (rule conflictsInOrder_cong) simp_all

lemma conflictsInOrder_onDidChangeStatus:
  assumes "conflictsInOrder s"
  shows "conflictsInOrder (onDidChangeStatus s)"
proof -
  have "distinct (map source (synchronisers s))"
    using assms by (simp add: conflictsInOrder_def)
  then have "conflictsInOrder (updateStatus s)"
    by (rule conflictsInOrder_updateStatus)
  then show ?thesis
    using assms by (simp add: onDidChangeStatus_def)
qed

lemma conflictsInOrder_announce:
  "conflictsInOrder s \<Longrightarrow>
     conflictsInOrder (foldl (\<lambda>t st. onDidChangeStatus (setInternal i st t)) s sts)"
  by (induction sts arbitrary: s) (simp_all add: conflictsInOrder_onDidChangeStatus)

lemma conflictsInOrder_awaitCall:
  "conflictsInOrder s \<Longrightarrow> conflictsInOrder (snd (awaitCall c i s))"
  by (simp add: awaitCall_def Let_def conflictsInOrder_announce)

lemma forEachSynchroniser_invariant:
  assumes "\<And>i t. P t \<Longrightarrow> P (snd (body i t))"
    and "\<And>e i t. P t \<Longrightarrow> P (snd (handler e i t))"
    and "P s"
  shows "P (snd (forEachSynchroniser body handler js s))"
  using assms(3)
proof (induction js arbitrary: s)
  case Nil
  then show ?case by simp
next
  case (Cons i rest)
  have b: "P (snd (body i s))"
    using Cons.prems by (rule assms(1))
  show ?case
  proof (cases "body i s")
    case (Pair r s1)
    then have s1: "P s1" using b by simp
    show ?thesis
    proof (cases r)
      case None
      then show ?thesis using Pair s1 by (simp add: Cons.IH)
    next
      case (Some e)
      have "P (snd (handler e i s1))"
        using s1 by (rule assms(2))
      then show ?thesis
        using Pair Some by (cases "handler e i s1") (auto simp add: Cons.IH split: option.split)
    qed
  qed
qed

lemma conflictsInOrder_handlers:
  "conflictsInOrder (snd (pullCatch e i s)) = conflictsInOrder s"
  "conflictsInOrder (snd (syncCatch e i s)) = conflictsInOrder s"
  "conflictsInOrder (snd (stopCatch e i s)) = conflictsInOrder s"
  "conflictsInOrder (snd (resetLocalCatch e i s)) = conflictsInOrder s"
  by (rule conflictsInOrder_cong; simp add: stopCatch_def resetLocalCatch_def)+

lemma conflictsInOrder_loop:
  assumes "\<And>e i u. conflictsInOrder (snd (h e i u)) = conflictsInOrder u"
    and "conflictsInOrder t"
  shows "conflictsInOrder (snd (forEachSynchroniser (awaitCall c) h js t))"
  by (rule forEachSynchroniser_invariant) (simp_all add: conflictsInOrder_awaitCall assms)

lemma sources_loop:
  "map source (synchronisers (snd (forEachSynchroniser (syncBody manifest) syncCatch js t))) =
     map source (synchronisers t)"
  by (rule forEachSynchroniser_invariant
        [where P = "\<lambda>u. map source (synchronisers u) = map source (synchronisers t)"])
     (simp_all add: syncBody_def awaitCall_synchronisers)

lemma sources_syncRound:
  "map source (synchronisers (snd (syncRound s))) = map source (synchronisers s)"
proof (cases "manifests s (fetched s)")
  case (Inl e)
  then show ?thesis by (simp add: syncRound_unfold)
next
  case (Inr manifest)
  define r where
    "r = forEachSynchroniser (syncBody manifest) syncCatch (indices s) (syncStarted s)"
  have "map source (synchronisers (snd r)) = map source (synchronisers s)"
    by (simp add: r_def sources_loop)
  then have "map source (synchronisers (snd
      (case r of (Some e, s4) \<Rightarrow> (Some e, s4)
       | (None, s4) \<Rightarrow> syncCompleted (storageGet SESSION_ID_KEY s) manifest s4))) =
      map source (synchronisers s)"
    by (cases r; cases "fst r") auto
  then show ?thesis
    using Inr by (simp add: syncRound_unfold r_def)
qed

lemma conflictsInOrder_resetLocal:
  assumes "conflictsInOrder s"
  shows "conflictsInOrder (snd (resetLocal s))"
proof -
  have start: "conflictsInOrder
      (s\<lparr>storage := (storage s)(SESSION_ID_KEY := None, LAST_SYNC_TIME_KEY := None)\<rparr>)"
    using assms by (simp add: conflictsInOrder_def)
  have "conflictsInOrder (snd (forEachSynchroniser resetLocalBody
      resetLocalCatch (indices s)
      (s\<lparr>storage := (storage s)(SESSION_ID_KEY := None, LAST_SYNC_TIME_KEY := None)\<rparr>)))"
    by (rule forEachSynchroniser_invariant [where P = conflictsInOrder])
       (simp_all add: resetLocalBody_def conflictsInOrder_awaitCall conflictsInOrder_handlers
          start)
  then show ?thesis
    using assms by (simp add: resetLocal_def split: option.split)
qed

lemma conflictsInOrder_sync:
  assumes "conflictsInOrder s"
  shows "conflictsInOrder (snd (sync s))"
proof (cases "userDataSyncStore s")
  case False
  then show ?thesis using assms by (simp add: sync_def checkEnablement_def)
next
  case True
  have "map source (synchronisers (snd (syncRound (s\<lparr>syncErrors := []\<rparr>)))) =
      map source (synchronisers s)"
    by (simp add: sources_syncRound)
  moreover have "distinct (map source (synchronisers s))"
    using assms by (simp add: conflictsInOrder_def)
  ultimately have "distinct (map source (synchronisers (snd (syncRound (s\<lparr>syncErrors := []\<rparr>)))))"
    by simp
  then have "conflictsInOrder (updateStatus (snd (syncRound (s\<lparr>syncErrors := []\<rparr>))))"
    by (rule conflictsInOrder_updateStatus)
  then show ?thesis
    by (simp add: sync_enabled [OF True])
qed

text \<open>Every public operation keeps the invariant.\<close>

lemma conflictsInOrder_preserved:
  assumes "conflictsInOrder s"
  shows "conflictsInOrder (snd (pull s))"
    and "conflictsInOrder (snd (push s))"
    and "conflictsInOrder (snd (sync s))"
    and "conflictsInOrder (snd (stop s))"
    and "conflictsInOrder (snd (accept src content s))"
    and "conflictsInOrder (snd (getRemoteContent src preview s))"
    and "conflictsInOrder (snd (resolveContent key ref s))"
    and "conflictsInOrder (snd (isFirstTimeSyncWithMerge s))"
    and "conflictsInOrder (snd (resetLocal s))"
    and "conflictsInOrder (snd (reset s))"
proof -
  have "conflictsInOrder (snd (forEachSynchroniser (awaitCall Pull) pullCatch (indices s) s))"
    using assms by (intro conflictsInOrder_loop) (simp_all add: conflictsInOrder_handlers)
  then show "conflictsInOrder (snd (pull s))"
    using assms
    by (cases "forEachSynchroniser (awaitCall Pull) pullCatch (indices s) s")
       (auto simp add: pull_def split: option.split)
  have "conflictsInOrder (snd (forEachSynchroniser (awaitCall Push) pullCatch (indices s) s))"
    using assms by (intro conflictsInOrder_loop) (simp_all add: conflictsInOrder_handlers)
  then show "conflictsInOrder (snd (push s))"
    using assms
    by (cases "forEachSynchroniser (awaitCall Push) pullCatch (indices s) s")
       (auto simp add: push_def split: option.split)
  show "conflictsInOrder (snd (sync s))"
    using assms by (rule conflictsInOrder_sync)
  have "conflictsInOrder (snd (forEachSynchroniser stopBody stopCatch (indices s) s))"
    by (rule forEachSynchroniser_invariant)
       (simp_all add: stopBody_def conflictsInOrder_awaitCall conflictsInOrder_handlers assms)
  then show "conflictsInOrder (snd (stop s))"
    using assms by (simp add: stop_def split: option.split)
  show "conflictsInOrder (snd (accept src content s))"
    using assms by (simp add: accept_def conflictsInOrder_awaitCall split: option.split)
  show "conflictsInOrder (snd (getRemoteContent src preview s))"
    using assms by (simp add: getRemoteContent_def split: option.split)
  show "conflictsInOrder (snd (resolveContent key ref s))"
    using assms by (simp add: resolveContent_def split: list.split)
  show "conflictsInOrder (snd (isFirstTimeSyncWithMerge s))"
    using assms
    by (simp add: isFirstTimeSyncWithMerge_def fetchManifest_def conflictsInOrder_def
          split: option.split sum.split)
  show "conflictsInOrder (snd (resetLocal s))"
    using assms by (rule conflictsInOrder_resetLocal)
  have "conflictsInOrder (snd (resetLocal (emit e s)))" for e
    using assms by (intro conflictsInOrder_resetLocal) simp
  then show "conflictsInOrder (snd (reset s))"
    using assms by (simp add: reset_def resetRemote_def split: option.split)
qed

text \<open>
  The invariant of the conflict sources holds on every service reached from a
  constructed one whose synchronisers have pairwise different sources.
\<close>

lemma conflictsInOrder_perform:
  "conflictsInOrder s \<Longrightarrow> conflictsInOrder (perform op s)"
  by (cases op) (simp_all add: conflictsInOrder_preserved conflictsInOrder_onDidChangeStatus)

lemma conflictsInOrder_reachable:
  "distinct (map source (synchronisers env)) \<Longrightarrow>
     conflictsInOrder (performAll ops (construct env))"
proof -
  have "conflictsInOrder s \<Longrightarrow> conflictsInOrder (performAll ops s)" for s :: "'a service"
    by (induction ops arbitrary: s) (simp_all add: conflictsInOrder_perform)
  then show "distinct (map source (synchronisers env)) \<Longrightarrow>
     conflictsInOrder (performAll ops (construct env))"
    by (simp add: conflictsInOrder_construct)
qed

lemma notification_in_order:
  assumes "conflictsInOrder s"
  shows "(DidChangeConflicts cs \<in> set (fired s (updateStatus s)) \<longleftrightarrow>
       cs = computeConflictsSources s
       \<and> set (computeConflictsSources s) \<noteq> set (conflictsSources s))
     \<and> (equals (conflictsSources s) (computeConflictsSources s) \<longleftrightarrow>
       set (conflictsSources s) = set (computeConflictsSources s))"
proof -
  have d: "distinct (map source (synchronisers s))"
    and old: "conflictsSources s =
      filter (\<lambda>a. a \<in> set (conflictsSources s)) (map source (synchronisers s))"
    using assms by (simp_all add: conflictsInOrder_def)
  have "set (computeConflictsSources s) = set (conflictsSources s) \<Longrightarrow>
      computeConflictsSources s = conflictsSources s"
    using computed_in_order [OF d] old by (rule in_order_eq)
  then have eq: "conflictsSources s = computeConflictsSources s \<longleftrightarrow>
      set (computeConflictsSources s) = set (conflictsSources s)"
    by auto
  have "DidChangeConflicts cs \<in> set (fired s (updateStatus s)) \<longleftrightarrow>
      cs = computeConflictsSources s \<and> conflictsSources s \<noteq> computeConflictsSources s"
    by (auto simp add: fired_def updateStatus_trace)
  then show ?thesis
    using eq by auto
qed

lemma conflictsInOrder_next:
  assumes "distinct (map source (synchronisers s))"
    and "map source (synchronisers t) = map source (synchronisers s)"
    and "conflictsSources t = conflictsSources (updateStatus s)"
  shows "conflictsInOrder t"
  using conflictsInOrder_updateStatus [OF assms(1)] assms(2,3)
  by (simp add: conflictsInOrder_def)

text \<open>
  Claim C4. Let \<open>s\<close> be the service at one call of \<open>updateStatus\<close> and \<open>t\<close>
  the service at its next call: the same array of synchronisers, of pairwise different
  sources and in whatever states, with the field of the conflict sources as the earlier
  call left it. The earlier call records in the field the sources of the synchronisers
  that were in conflict, in the order of the array. The later call fires the conflicts
  notification exactly when the set of the sources of the synchronisers in conflict now
  differs from that set at the earlier call, and then with the list of the sources now
  in conflict; the comparison \<open>equals\<close> makes says "equal" exactly when the two sets
  are equal, so an equal set is never notified again, and a list with the same elements
  in another order is not what an earlier call has recorded. The last part is the same
  on a service reached by any sequence of public operations and status changes from a
  constructed one: the next call notifies exactly when the sources now in conflict
  differ, as a set, from the conflict sources the service holds.
\<close>

theorem conflicts_notification_iff:
  fixes s t env :: "'st service"
  assumes "distinct (map source (synchronisers s))"
    and "map source (synchronisers t) = map source (synchronisers s)"
    and "conflictsSources t = conflictsSources (updateStatus s)"
  shows "conflictsSources (updateStatus s) =
       map source (filter (\<lambda>x. synchroniserStatus x = HasConflicts) (synchronisers s))
     \<and> (DidChangeConflicts cs \<in> set (fired t (updateStatus t)) \<longleftrightarrow>
       cs = map source (filter (\<lambda>x. synchroniserStatus x = HasConflicts) (synchronisers t))
       \<and> set (map source (filter (\<lambda>x. synchroniserStatus x = HasConflicts) (synchronisers t)))
           \<noteq> set (map source
                   (filter (\<lambda>x. synchroniserStatus x = HasConflicts) (synchronisers s))))
     \<and> (equals (conflictsSources t)
           (map source (filter (\<lambda>x. synchroniserStatus x = HasConflicts) (synchronisers t)))
         \<longleftrightarrow>
       set (map source (filter (\<lambda>x. synchroniserStatus x = HasConflicts) (synchronisers t)))
         = set (map source
                  (filter (\<lambda>x. synchroniserStatus x = HasConflicts) (synchronisers s))))
     \<and> conflictsSources (updateStatus t) =
       map source (filter (\<lambda>x. synchroniserStatus x = HasConflicts) (synchronisers t))
     \<and> (distinct (map source (synchronisers env)) \<longrightarrow>
         (DidChangeConflicts cs \<in>
            set (fired (performAll ops (construct env))
                   (updateStatus (performAll ops (construct env)))) \<longleftrightarrow>
          cs = map source (filter (\<lambda>x. synchroniserStatus x = HasConflicts)
                             (synchronisers (performAll ops (construct env))))
          \<and> set (map source (filter (\<lambda>x. synchroniserStatus x = HasConflicts)
                                 (synchronisers (performAll ops (construct env)))))
              \<noteq> set (conflictsSources (performAll ops (construct env)))))"
proof -
  have recorded: "conflictsSources (updateStatus u) =
      map source (filter (\<lambda>x. synchroniserStatus x = HasConflicts) (synchronisers u))"
    for u :: "'st service"
    by (simp add: computeConflictsSources_def)
  have field: "conflictsSources t =
      map source (filter (\<lambda>x. synchroniserStatus x = HasConflicts) (synchronisers s))"
    using assms(3) recorded [of s] by simp
  have "conflictsInOrder t"
    using assms by (rule conflictsInOrder_next)
  note next_call =
    notification_in_order [OF this, of cs, unfolded computeConflictsSources_def field]
  have fires: "DidChangeConflicts cs \<in> set (fired t (updateStatus t)) \<longleftrightarrow>
       cs = map source (filter (\<lambda>x. synchroniserStatus x = HasConflicts) (synchronisers t))
       \<and> set (map source (filter (\<lambda>x. synchroniserStatus x = HasConflicts) (synchronisers t)))
           \<noteq> set (map source
                   (filter (\<lambda>x. synchroniserStatus x = HasConflicts) (synchronisers s)))"
    using next_call by (rule conjunct1)
  have "equals (map source (filter (\<lambda>x. synchroniserStatus x = HasConflicts)
                  (synchronisers s)))
           (map source (filter (\<lambda>x. synchroniserStatus x = HasConflicts) (synchronisers t)))
         \<longleftrightarrow>
       set (map source (filter (\<lambda>x. synchroniserStatus x = HasConflicts) (synchronisers s)))
         = set (map source
                  (filter (\<lambda>x. synchroniserStatus x = HasConflicts) (synchronisers t)))"
    using next_call by (rule conjunct2)
  then have same: "equals (conflictsSources t)
           (map source (filter (\<lambda>x. synchroniserStatus x = HasConflicts) (synchronisers t)))
         \<longleftrightarrow>
       set (map source (filter (\<lambda>x. synchroniserStatus x = HasConflicts) (synchronisers t)))
         = set (map source
                  (filter (\<lambda>x. synchroniserStatus x = HasConflicts) (synchronisers s)))"
    unfolding field by (rule trans) (rule eq_commute)
  have run: "distinct (map source (synchronisers env)) \<longrightarrow>
         (DidChangeConflicts cs \<in>
            set (fired (performAll ops (construct env))
                   (updateStatus (performAll ops (construct env)))) \<longleftrightarrow>
          cs = map source (filter (\<lambda>x. synchroniserStatus x = HasConflicts)
                             (synchronisers (performAll ops (construct env))))
          \<and> set (map source (filter (\<lambda>x. synchroniserStatus x = HasConflicts)
                                 (synchronisers (performAll ops (construct env)))))
              \<noteq> set (conflictsSources (performAll ops (construct env))))"
  proof
    assume "distinct (map source (synchronisers env))"
    then have "conflictsInOrder (performAll ops (construct env))"
      by (rule conflictsInOrder_reachable)
    from notification_in_order [OF this, of cs, unfolded computeConflictsSources_def]
    show "DidChangeConflicts cs \<in>
            set (fired (performAll ops (construct env))
                   (updateStatus (performAll ops (construct env)))) \<longleftrightarrow>
          cs = map source (filter (\<lambda>x. synchroniserStatus x = HasConflicts)
                             (synchronisers (performAll ops (construct env))))
          \<and> set (map source (filter (\<lambda>x. synchroniserStatus x = HasConflicts)
                                 (synchronisers (performAll ops (construct env)))))
              \<noteq> set (conflictsSources (performAll ops (construct env)))"
      by (rule conjunct1)
  qed
  show ?thesis
    using recorded [of s] fires same recorded [of t] run by (intro conjI)
qed

theorem conflicts_notification_iff_witness:
  "conflictsSources (updateStatus (exampleService True Idle
       [worker Settings ''settings'' HasConflicts, worker Keybindings ''keybindings'' Idle]
       None Map.empty)) = [Settings]
   \<and> DidChangeConflicts [Settings] \<notin> set (fired
       (setInternal 1 Syncing (updateStatus (exampleService True Idle
          [worker Settings ''settings'' HasConflicts, worker Keybindings ''keybindings'' Idle]
          None Map.empty)))
       (updateStatus (setInternal 1 Syncing (updateStatus (exampleService True Idle
          [worker Settings ''settings'' HasConflicts, worker Keybindings ''keybindings'' Idle]
          None Map.empty)))))
   \<and> DidChangeConflicts [Settings, Keybindings] \<in> set (fired
       (setInternal 1 HasConflicts (updateStatus (exampleService True Idle
          [worker Settings ''settings'' HasConflicts, worker Keybindings ''keybindings'' Idle]
          None Map.empty)))
       (updateStatus (setInternal 1 HasConflicts (updateStatus (exampleService True Idle
          [worker Settings ''settings'' HasConflicts, worker Keybindings ''keybindings'' Idle]
          None Map.empty)))))
   \<and> distinct (map source (synchronisers (exampleService True Idle
       [worker Settings ''settings'' HasConflicts, worker Keybindings ''keybindings'' Idle]
       None Map.empty)))
   \<and> DidChangeConflicts [Settings] \<notin> set (fired
       (performAll [StatusChanged 1 Syncing] (construct (exampleService True Idle
          [worker Settings ''settings'' HasConflicts, worker Keybindings ''keybindings'' Idle]
          None Map.empty)))
       (updateStatus (performAll [StatusChanged 1 Syncing] (construct (exampleService True Idle
          [worker Settings ''settings'' HasConflicts, worker Keybindings ''keybindings'' Idle]
          None Map.empty)))))"
  using conflicts_notification_iff
      [where s = "exampleService True Idle
          [worker Settings ''settings'' HasConflicts, worker Keybindings ''keybindings'' Idle]
          None Map.empty"
        and t = "setInternal 1 Syncing (updateStatus (exampleService True Idle
          [worker Settings ''settings'' HasConflicts, worker Keybindings ''keybindings'' Idle]
          None Map.empty))"
        and cs = "[Settings]"
        and env = "exampleService True Idle
          [worker Settings ''settings'' HasConflicts, worker Keybindings ''keybindings'' Idle]
          None Map.empty"
        and ops = "[StatusChanged 1 Syncing]"]
    conflicts_notification_iff
      [where s = "exampleService True Idle
          [worker Settings ''settings'' HasConflicts, worker Keybindings ''keybindings'' Idle]
          None Map.empty"
        and t = "setInternal 1 HasConflicts (updateStatus (exampleService True Idle
          [worker Settings ''settings'' HasConflicts, worker Keybindings ''keybindings'' Idle]
          None Map.empty))"
        and cs = "[Settings, Keybindings]"
        and env = "exampleService True Idle
          [worker Settings ''settings'' HasConflicts, worker Keybindings ''keybindings'' Idle]
          None Map.empty"
        and ops = "[StatusChanged 1 Syncing]"]
  by (simp add: computeConflictsSources_def synchroniserStatus_def exampleService_def
        worker_def construct_def onDidChangeStatus_def Let_def)

section \<open>The last sync time along a trace\<close>

lemma statusAfter_append:
  "statusAfter st (tr @ tr') = statusAfter (statusAfter st tr) tr'"
  by (induction st tr rule: statusAfter.induct) simp_all

lemma lastSyncTimeAfter_append:
  "lastSyncTimeAfter l (tr @ tr') = lastSyncTimeAfter (lastSyncTimeAfter l tr) tr'"
  by (induction l tr rule: lastSyncTimeAfter.induct) simp_all

lemma updatedWhileIdle_append:
  "updatedWhileIdle st (tr @ tr') \<longleftrightarrow>
     updatedWhileIdle st tr \<and> updatedWhileIdle (statusAfter st tr) tr'"
  by (induction st tr rule: updatedWhileIdle.induct) auto

lemma evolvesI:
  assumes "trace t = trace s @ tr"
    and "status t = statusAfter (status s) tr"
    and "lastSyncTime t = lastSyncTimeAfter (lastSyncTime s) tr"
    and "updatedWhileIdle (status s) tr"
  shows "evolves s t"
  using assms by (simp add: evolves_def fired_def)

lemma evolvesE:
  assumes "evolves s t"
  obtains tr where "trace t = trace s @ tr"
    and "status t = statusAfter (status s) tr"
    and "lastSyncTime t = lastSyncTimeAfter (lastSyncTime s) tr"
    and "updatedWhileIdle (status s) tr"
proof -
  have "trace t = trace s @ fired s t"
    using assms by (metis append_take_drop_id evolves_def fired_def)
  then show ?thesis
    using assms that by (simp add: evolves_def)
qed

lemma evolves_refl [simp]: "evolves s s"
  by (rule evolvesI [where tr = "[]"]) simp_all

lemma evolves_trans:
  assumes "evolves s t" "evolves t u"
  shows "evolves s u"
proof -
  obtain tr where tr: "trace t = trace s @ tr" "status t = statusAfter (status s) tr"
    "lastSyncTime t = lastSyncTimeAfter (lastSyncTime s) tr" "updatedWhileIdle (status s) tr"
    using assms(1) by (rule evolvesE)
  obtain tr' where tr': "trace u = trace t @ tr'" "status u = statusAfter (status t) tr'"
    "lastSyncTime u = lastSyncTimeAfter (lastSyncTime t) tr'" "updatedWhileIdle (status t) tr'"
    using assms(2) by (rule evolvesE)
  show ?thesis
    using tr tr'
    by (intro evolvesI [where tr = "tr @ tr'"])
       (simp_all add: statusAfter_append lastSyncTimeAfter_append updatedWhileIdle_append)
qed

lemma evolves_quiet:
  "trace t = trace s \<Longrightarrow> status t = status s \<Longrightarrow> lastSyncTime t = lastSyncTime s \<Longrightarrow>
     evolves s t"
  by (rule evolvesI [where tr = "[]"]) simp_all

lemma evolves_emit:
  "(\<forall>st. e \<noteq> DidChangeStatus st) \<Longrightarrow> (\<forall>n. e \<noteq> DidChangeLastSyncTime n) \<Longrightarrow>
     evolves s (emit e s)"
  by (rule evolvesI [where tr = "[e]"]; cases e; simp)

lemma evolves_updateLastSyncTime: "evolves s (updateLastSyncTime s)"
  by (rule evolvesI
        [where tr = "if status s = Idle then [DidChangeLastSyncTime (clock s)] else []"])
     (simp_all add: updateLastSyncTime_def)

lemma evolves_setStatus: "evolves s (setStatus st s)"
  by (rule evolvesI
        [where tr = "if status s = st then []
                else DidChangeStatus st #
                  (if status s = HasConflicts \<and> st = Idle
                   then [DidChangeLastSyncTime (clock s)] else [])"])
     (auto simp add: setStatus_def Let_def updateLastSyncTime_def)

lemma evolves_updateStatus: "evolves s (updateStatus s)"
proof -
  have "evolves s (if \<not> equals (conflictsSources s) (computeConflictsSources s)
      then emit (DidChangeConflicts (computeConflictsSources s))
             (s\<lparr>conflictsSources := computeConflictsSources s\<rparr>)
      else s)"
    by (auto intro!: evolvesI [where tr = "[DidChangeConflicts (computeConflictsSources s)]"])
  then show ?thesis
    unfolding updateStatus_def Let_def by (rule evolves_trans) (rule evolves_setStatus)
qed

lemma evolves_onDidChangeStatus: "evolves s (onDidChangeStatus s)"
  by (simp add: onDidChangeStatus_def evolves_updateStatus)

lemma evolves_setInternal: "evolves s (setInternal i st s)"
  by (rule evolves_quiet) simp_all

lemma evolves_announce:
  "evolves s (foldl (\<lambda>t st. onDidChangeStatus (setInternal i st t)) s sts)"
proof (induction sts arbitrary: s)
  case Nil
  show ?case by simp
next
  case (Cons st sts)
  have "evolves s (onDidChangeStatus (setInternal i st s))"
    by (rule evolves_trans [OF evolves_setInternal evolves_onDidChangeStatus])
  then show ?case
    by (simp add: evolves_trans [OF _ Cons.IH])
qed

lemma evolves_awaitCall: "evolves s (snd (awaitCall c i s))"
proof -
  have "evolves s (emit (Called (source (synchronisers s ! i)) c) s)"
    by (rule evolves_emit) simp_all
  then have "evolves s (foldl (\<lambda>t st. onDidChangeStatus (setInternal i st t))
      (emit (Called (source (synchronisers s ! i)) c) s)
      (announced (respond c (synchronisers s ! i))))"
    by (rule evolves_trans) (rule evolves_announce)
  then show ?thesis
    unfolding awaitCall_def Let_def snd_conv
    by (rule evolves_trans) (rule evolves_setInternal)
qed

lemma evolves_handleSyncError: "evolves s (snd (handleSyncError e src s))"
proof (cases "isUserDataSyncStoreError e")
  case True
  then show ?thesis
    by (cases e) (simp_all add: handleSyncError_def evolves_emit)
next
  case False
  have "evolves s (emit (LogSourceError src e) (emit (LogError e) s))"
    by (rule evolves_trans [OF evolves_emit evolves_emit]) simp_all
  then show ?thesis
    using False by (cases e) (simp_all add: handleSyncError_def)
qed

lemma evolves_handlers:
  "evolves s (snd (pullCatch e i s))"
  "evolves s (snd (syncCatch e i s))"
  "evolves s (snd (stopCatch e i s))"
  "evolves s (snd (resetLocalCatch e i s))"
proof -
  show "evolves s (snd (pullCatch e i s))"
    by (simp add: pullCatch_def evolves_handleSyncError)
  have "evolves s (snd (handleSyncError e (source (synchronisers s ! i)) s))"
    by (rule evolves_handleSyncError)
  moreover have "evolves t (t\<lparr>syncErrors := es\<rparr>)" for t :: "'a service" and es
    by (rule evolves_quiet) simp_all
  ultimately show "evolves s (snd (syncCatch e i s))"
    by (cases "handleSyncError e (source (synchronisers s ! i)) s")
       (auto simp add: syncCatch_def split: option.split intro: evolves_trans)
  show "evolves s (snd (stopCatch e i s))"
    by (simp add: stopCatch_def evolves_emit)
  show "evolves s (snd (resetLocalCatch e i s))"
    unfolding resetLocalCatch_def snd_conv
    by (rule evolves_trans [OF evolves_emit evolves_emit]) simp_all
qed

lemma evolves_loop:
  assumes "\<And>i t. evolves t (snd (body i t))"
    and "\<And>e i t. evolves t (snd (handler e i t))"
    and "evolves s t"
  shows "evolves s (snd (forEachSynchroniser body handler js t))"
  by (rule forEachSynchroniser_invariant [where P = "evolves s"])
     (auto intro: evolves_trans assms)

lemma evolves_syncRound: "evolves s (snd (syncRound s))"
proof -
  have started: "evolves s (syncStarted s)"
  proof -
    have "evolves s (emit (LogTrace ''Sync started.'') s)"
      by (rule evolves_emit) simp_all
    moreover have "evolves t (if status t \<noteq> HasConflicts then setStatus Syncing t else t)"
      for t :: "'a service"
      by (simp add: evolves_setStatus)
    moreover have "evolves t (t\<lparr>fetched := n\<rparr>)" for t :: "'a service" and n
      by (rule evolves_quiet) simp_all
    ultimately show ?thesis
      unfolding syncStarted_def Let_def by (blast intro: evolves_trans)
  qed
  have completed: "evolves t (snd (syncCompleted sid manifest t))"
    for t :: "'a service" and sid manifest
  proof -
    have f: "evolves t (snd (fetchManifest t))"
      by (rule evolves_quiet) (simp_all add: fetchManifest_def)
    have fin: "evolves u (updateLastSyncTime (emit (LogInfo ''Sync done.'')
        (updateSessionId sid m u)))" for u :: "'a service" and m
    proof -
      have "evolves u (updateSessionId sid m u)"
        by (rule evolves_quiet) simp_all
      moreover have "evolves (updateSessionId sid m u)
          (emit (LogInfo ''Sync done.'') (updateSessionId sid m u))"
        by (rule evolves_emit) simp_all
      ultimately show ?thesis
        by (blast intro: evolves_trans evolves_updateLastSyncTime)
    qed
    show ?thesis
    proof (cases manifest)
      case None
      show ?thesis
        using f fin [of "snd (fetchManifest t)"]
        by (cases "fetchManifest t")
           (auto simp add: syncCompleted_def None split: sum.split intro: evolves_trans)
    next
      case (Some m)
      then show ?thesis
        using fin [of t] by (simp add: syncCompleted_def)
    qed
  qed
  show ?thesis
  proof (cases "manifests s (fetched s)")
    case (Inl e)
    then show ?thesis by (simp add: syncRound_unfold started)
  next
    case (Inr manifest)
    define r where
      "r = forEachSynchroniser (syncBody manifest) syncCatch (indices s) (syncStarted s)"
    have r: "evolves s (snd r)"
      unfolding r_def
      by (rule evolves_loop) (simp_all add: syncBody_def evolves_awaitCall evolves_handlers started)
    have "evolves s (snd
        (case r of (Some e, s4) \<Rightarrow> (Some e, s4)
         | (None, s4) \<Rightarrow> syncCompleted (storageGet SESSION_ID_KEY s) manifest s4))"
      using r completed [of "snd r"]
      by (cases r; cases "fst r") (auto intro: evolves_trans)
    then show ?thesis
      using Inr by (simp add: syncRound_unfold r_def started)
  qed
qed

lemma evolves_resetLocal: "evolves s (snd (resetLocal s))"
proof -
  have "evolves s (s\<lparr>storage := (storage s)(SESSION_ID_KEY := None, LAST_SYNC_TIME_KEY := None)\<rparr>)"
    by (rule evolves_quiet) simp_all
  then have "evolves s (snd (forEachSynchroniser resetLocalBody resetLocalCatch
      (indices s)
      (s\<lparr>storage := (storage s)(SESSION_ID_KEY := None, LAST_SYNC_TIME_KEY := None)\<rparr>)))"
    by (intro evolves_loop) (simp_all add: resetLocalBody_def evolves_awaitCall evolves_handlers)
  then show ?thesis
    by (simp add: resetLocal_def split: option.split)
qed

lemma evolves_operations:
  "evolves s (snd (pull s))"
  "evolves s (snd (push s))"
  "evolves s (snd (sync s))"
  "evolves s (snd (stop s))"
  "evolves s (snd (accept src content s))"
  "evolves s (snd (getRemoteContent src preview s))"
  "evolves s (snd (resolveContent key ref s))"
  "evolves s (snd (isFirstTimeSyncWithMerge s))"
  "evolves s (snd (resetLocal s))"
  "evolves s (snd (reset s))"
proof -
  have "evolves s (snd (forEachSynchroniser (awaitCall Pull) pullCatch (indices s) s))"
    by (intro evolves_loop) (simp_all add: evolves_awaitCall evolves_handlers)
  then show "evolves s (snd (pull s))"
    by (cases "forEachSynchroniser (awaitCall Pull) pullCatch (indices s) s")
       (auto simp add: pull_def split: option.split
          intro: evolves_trans evolves_updateLastSyncTime)
  have "evolves s (snd (forEachSynchroniser (awaitCall Push) pullCatch (indices s) s))"
    by (intro evolves_loop) (simp_all add: evolves_awaitCall evolves_handlers)
  then show "evolves s (snd (push s))"
    by (cases "forEachSynchroniser (awaitCall Push) pullCatch (indices s) s")
       (auto simp add: push_def split: option.split
          intro: evolves_trans evolves_updateLastSyncTime)
  show "evolves s (snd (sync s))"
  proof (cases "userDataSyncStore s")
    case False
    then show ?thesis by (simp add: sync_def checkEnablement_def)
  next
    case True
    have "evolves s (s\<lparr>syncErrors := []\<rparr>)"
      by (rule evolves_quiet) simp_all
    then have "evolves s (snd (syncRound (s\<lparr>syncErrors := []\<rparr>)))"
      by (rule evolves_trans) (rule evolves_syncRound)
    then have "evolves s (updateStatus (snd (syncRound (s\<lparr>syncErrors := []\<rparr>))))"
      by (rule evolves_trans) (rule evolves_updateStatus)
    then have "evolves s (emit (SyncErrors (syncErrors (snd (syncRound (s\<lparr>syncErrors := []\<rparr>)))))
        (updateStatus (snd (syncRound (s\<lparr>syncErrors := []\<rparr>)))))"
      by (rule evolves_trans) (rule evolves_emit, simp_all)
    then show ?thesis
      by (simp add: sync_enabled [OF True])
  qed
  have "evolves s (snd (forEachSynchroniser stopBody stopCatch (indices s) s))"
    by (intro evolves_loop) (simp_all add: stopBody_def evolves_awaitCall evolves_handlers)
  then show "evolves s (snd (stop s))"
    by (simp add: stop_def split: option.split)
  show "evolves s (snd (accept src content s))"
    by (simp add: accept_def evolves_awaitCall split: option.split)
  show "evolves s (snd (getRemoteContent src preview s))"
    by (simp add: getRemoteContent_def split: option.split)
  show "evolves s (snd (resolveContent key ref s))"
    by (simp add: resolveContent_def split: list.split)
  have "evolves s (snd (fetchManifest s))"
    by (rule evolves_quiet) (simp_all add: fetchManifest_def)
  then show "evolves s (snd (isFirstTimeSyncWithMerge s))"
    by (cases "fetchManifest s")
       (auto simp add: isFirstTimeSyncWithMerge_def split: option.split sum.split)
  show "evolves s (snd (resetLocal s))"
    by (rule evolves_resetLocal)
  have "evolves s (snd (resetLocal (emit e s)))"
    if "(\<forall>st. e \<noteq> DidChangeStatus st)" "(\<forall>n. e \<noteq> DidChangeLastSyncTime n)" for e
    by (rule evolves_trans [OF evolves_emit evolves_resetLocal]) (simp_all add: that)
  then show "evolves s (snd (reset s))"
    by (simp add: reset_def resetRemote_def split: option.split)
qed

lemma evolves_perform: "evolves s (perform op s)"
  by (cases op)
     (simp_all add: evolves_operations
        evolves_trans [OF evolves_setInternal evolves_onDidChangeStatus])

lemma evolves_performAll: "evolves s (performAll ops s)"
proof (induction ops arbitrary: s)
  case Nil
  show ?case by simp
next
  case (Cons op ops)
  have "evolves s (performAll ops (perform op s))"
    using evolves_perform Cons.IH by (rule evolves_trans)
  then show ?case by simp
qed

lemma updatedWhileIdle_at:
  "updatedWhileIdle st (tr1 @ DidChangeLastSyncTime n # tr2) \<Longrightarrow> statusAfter st tr1 = Idle"
  by (simp add: updatedWhileIdle_append)

text \<open>
  Claim C8. \<open>updateLastSyncTime\<close>, the one place that writes the last sync time
  after construction, leaves a service whose status is not Idle exactly as it was. Along
  every sequence of public operations and status changes of synchronisers, the status
  and the last sync time of the service are those its notifications determine, and
  whenever an update of the last sync time is notified, the status at that moment is
  Idle: it is never updated while conflicts are outstanding or while the status is
  otherwise not Idle.
\<close>

theorem lastSyncTime_only_when_idle:
  "(status s \<noteq> Idle \<longrightarrow> updateLastSyncTime s = s)
   \<and> evolves s (performAll ops s)
   \<and> (fired s (performAll ops s) = tr1 @ DidChangeLastSyncTime n # tr2 \<longrightarrow>
        statusAfter (status s) tr1 = Idle)"
proof -
  have "evolves s (performAll ops s)"
    by (rule evolves_performAll)
  then show ?thesis
    by (auto simp add: evolves_def updateLastSyncTime_def dest: updatedWhileIdle_at)
qed

theorem lastSyncTime_only_when_idle_witness:
  "updateLastSyncTime (exampleService True HasConflicts [] None Map.empty) =
     exampleService True HasConflicts [] None Map.empty
   \<and> fired
       (construct (exampleService True Uninitialized
          [worker Settings ''settings'' Idle] None Map.empty))
       (performAll [OpPull]
          (construct (exampleService True Uninitialized
             [worker Settings ''settings'' Idle] None Map.empty))) =
     [Called Settings Pull, DidChangeStatus Syncing, DidChangeStatus Idle]
     @ DidChangeLastSyncTime 1000 # []
   \<and> statusAfter
       (status (construct (exampleService True Uninitialized
          [worker Settings ''settings'' Idle] None Map.empty)))
       [Called Settings Pull, DidChangeStatus Syncing, DidChangeStatus Idle] = Idle
   \<and> evolves
       (construct (exampleService True Uninitialized
          [worker Settings ''settings'' Idle] None Map.empty))
       (performAll [OpPull]
          (construct (exampleService True Uninitialized
             [worker Settings ''settings'' Idle] None Map.empty)))"
  using lastSyncTime_only_when_idle
          [of "exampleService True HasConflicts [] None Map.empty"]
        lastSyncTime_only_when_idle
          [of "construct (exampleService True Uninitialized
             [worker Settings ''settings'' Idle] None Map.empty)"
              "[OpPull]"
              "[Called Settings Pull, DidChangeStatus Syncing, DidChangeStatus Idle]"
              1000 "[]"]
  by (simp add: construct_def pull_def pullCatch_def indices_def awaitCall_def respond_def
        onDidChangeStatus_def setInternal_def updateStatus_def setStatus_def
        updateLastSyncTime_def computeStatus_def computeConflictsSources_def
        synchroniserStatus_def checkEnablement_def storageGetNumber_def emit_def fired_def
        exampleService_def worker_def settling_def LAST_SYNC_TIME_KEY_def Let_def)

end
